(* ===== verification/Sfs_Prelude.thy ===== *)
theory Sfs_Prelude
  imports Main "HOL-Library.Word"
begin

text \<open>
  Shared vocabulary of the development: the machine types of the C sources (an LP64,
  little-endian kernel), the outcome of a piece of kernel code (a value, or the fault that
  stops it), the bytes of a 4096-byte block with its little-endian accessors, C strings, and the
  bit scans that the allocators are built on.  The generic lemmas proved here are collected in
  \<open>blk_simps\<close> (reading a block after writing it) and \<open>outcome_simps\<close> (sequencing outcomes).
\<close>

unbundle bit_operations_syntax

named_theorems blk_simps \<open>reads of a block after a write\<close>
named_theorems outcome_simps \<open>sequencing of outcomes\<close>

section \<open>Machine types\<close>

type_synonym u8 = "8 word"
type_synonym u16 = "16 word"
type_synonym u32 = "32 word"
type_synonym u64 = "64 word"

text \<open>Error numbers, as the kernel and the C library number them; a function returns their negation.\<close>

abbreviation (input) EPERM :: int where "EPERM \<equiv> 1"
abbreviation (input) ENOENT :: int where "ENOENT \<equiv> 2"
abbreviation (input) EINTR :: int where "EINTR \<equiv> 4"
abbreviation (input) EIO :: int where "EIO \<equiv> 5"
abbreviation (input) EAGAIN :: int where "EAGAIN \<equiv> 11"
abbreviation (input) ENOMEM :: int where "ENOMEM \<equiv> 12"
abbreviation (input) EFAULT :: int where "EFAULT \<equiv> 14"
abbreviation (input) EINVAL :: int where "EINVAL \<equiv> 22"
abbreviation (input) ENOSPC :: int where "ENOSPC \<equiv> 28"
abbreviation (input) ERESTARTSYS :: int where "ERESTARTSYS \<equiv> 512"

section \<open>Outcomes\<close>

text \<open>
  Kernel code either finishes with a value or is stopped by a fault: a failed \<open>BUG_ON\<close>, the
  use of a null or invalid pointer, an access outside an object, a shift the C language leaves
  undefined, \<open>ffz\<close> of a word without a zero bit, a mutex taken twice by its owner,
  a mutex released by a task that does not hold it, or the use of a variable that was never set.
\<close>

datatype fault =
    Bug_on
  | Null_deref
  | Bad_pointer
  | Out_of_bounds
  | Undefined_shift
  | No_zero_bit
  | Self_deadlock
  | Bad_unlock
  | Uninitialised

datatype 'a outcome = Done 'a | Fault fault

fun bnd :: "'a outcome \<Rightarrow> ('a \<Rightarrow> 'b outcome) \<Rightarrow> 'b outcome" where
  "bnd (Done a) f = f a"
| "bnd (Fault x) f = Fault x"

definition guard :: "bool \<Rightarrow> fault \<Rightarrow> unit outcome" where
  "guard c x = (if c then Done () else Fault x)"

lemma guard_simps [simp]: "guard True x = Done ()" "guard False x = Fault x"
  by (simp_all add: guard_def)

lemma bnd_assoc [outcome_simps]: "bnd (bnd m f) g = bnd m (\<lambda>a. bnd (f a) g)"
  by (cases m) simp_all

lemma bnd_Done_iff [outcome_simps]: "bnd m f = Done b \<longleftrightarrow> (\<exists>a. m = Done a \<and> f a = Done b)"
  by (cases m) simp_all

lemma bnd_Fault_iff:
  "bnd m f = Fault x \<longleftrightarrow> m = Fault x \<or> (\<exists>a. m = Done a \<and> f a = Fault x)"
  by (cases m) simp_all

lemma bnd_if [outcome_simps]: "bnd (if c then m else n) f = (if c then bnd m f else bnd n f)"
  by simp

lemma guard_Done_iff [outcome_simps]: "guard c x = Done u \<longleftrightarrow> c"
  by (simp add: guard_def)

lemma guard_Fault_iff: "guard c x = Fault y \<longleftrightarrow> \<not> c \<and> y = x"
  by (auto simp: guard_def)

section \<open>Blocks\<close>

text \<open>
  The contents of a block (and of the buffer that caches it) is the function from byte offsets
  to bytes; only the offsets below \<open>BLOCK_SIZE\<close> belong to the block, and every access of the
  model outside them is an \<^const>\<open>Out_of_bounds\<close> fault.
\<close>

type_synonym blk = "nat \<Rightarrow> u8"

abbreviation (input) BLOCK_SIZE :: nat where "BLOCK_SIZE \<equiv> 4096"

definition blk_read :: "nat \<Rightarrow> nat \<Rightarrow> blk \<Rightarrow> u8 list" where
  "blk_read off n b = map b [off..<off + n]"

definition blk_write :: "nat \<Rightarrow> u8 list \<Rightarrow> blk \<Rightarrow> blk" where
  "blk_write off bs b = (\<lambda>i. if off \<le> i \<and> i < off + length bs then bs ! (i - off) else b i)"

lemma length_blk_read [simp]: "length (blk_read off n b) = n"
  by (simp add: blk_read_def)

lemma nth_blk_read [simp]: "i < n \<Longrightarrow> blk_read off n b ! i = b (off + i)"
  by (simp add: blk_read_def)

lemma blk_read_0 [simp]: "blk_read off 0 b = []"
  by (simp add: blk_read_def)

lemma blk_write_Nil [simp]: "blk_write off [] b = b"
  by (auto simp: blk_write_def fun_eq_iff)

lemma take_blk_read [simp]: "take k (blk_read off n b) = blk_read off (min k n) b"
  by (simp add: list_eq_iff_nth_eq)

lemma blk_write_in: "off \<le> i \<Longrightarrow> i < off + length bs \<Longrightarrow> blk_write off bs b i = bs ! (i - off)"
  by (simp add: blk_write_def)

lemma blk_write_out: "i < off \<or> off + length bs \<le> i \<Longrightarrow> blk_write off bs b i = b i"
  by (auto simp: blk_write_def)

lemma blk_read_write_same [blk_simps]: "length bs = n \<Longrightarrow> blk_read off n (blk_write off bs b) = bs"
  by (simp add: list_eq_iff_nth_eq blk_write_def)

lemma blk_read_write_prefix:
  "n \<le> length bs \<Longrightarrow> blk_read off n (blk_write off bs b) = take n bs"
  by (simp add: list_eq_iff_nth_eq blk_write_def)

lemma blk_read_write_inside:
  "off' \<le> off \<Longrightarrow> off + n \<le> off' + length bs \<Longrightarrow>
   blk_read off n (blk_write off' bs b) = take n (drop (off - off') bs)"
  by (simp add: list_eq_iff_nth_eq blk_write_def)

lemma blk_read_write_other [blk_simps]:
  "off + n \<le> off' \<or> off' + length bs \<le> off \<Longrightarrow> blk_read off n (blk_write off' bs b) = blk_read off n b"
  by (auto simp: list_eq_iff_nth_eq blk_write_def)

lemma blk_write_id [simp]: "blk_write off (blk_read off n b) b = b"
  by (auto simp: blk_write_def fun_eq_iff)

subsection \<open>Little-endian integers\<close>

fun le_bytes :: "nat \<Rightarrow> u64 \<Rightarrow> u8 list" where
  "le_bytes 0 w = []"
| "le_bytes (Suc n) w = ucast w # le_bytes n (drop_bit 8 w)"

fun of_le :: "u8 list \<Rightarrow> u64" where
  "of_le [] = 0"
| "of_le (x # xs) = ucast x OR push_bit 8 (of_le xs)"

lemma length_le_bytes [simp]: "length (le_bytes n w) = n"
  by (induction n arbitrary: w) simp_all

lemma of_le_le_bytes: "of_le (le_bytes n w) = take_bit (8 * n) w"
proof (induction n arbitrary: w)
  case 0
  show ?case by simp
next
  case (Suc n)
  show ?case
    by (rule bit_eqI) (auto simp: Suc bit_simps)
qed

lemma of_le_le_bytes_8 [simp]: "of_le (le_bytes 8 w) = w"
  by (rule bit_eqI) (auto simp: of_le_le_bytes bit_simps)

lemma of_le_le_bytes_4 [simp]: "of_le (le_bytes 4 (ucast (w :: u32))) = ucast w"
  by (rule bit_eqI) (auto simp: of_le_le_bytes bit_simps dest: bit_imp_le_length)

lemma of_le_replicate_0 [simp]: "of_le (replicate n 0) = 0"
  by (induction n) simp_all

definition get_u64 :: "nat \<Rightarrow> blk \<Rightarrow> u64" where
  "get_u64 off b = of_le (blk_read off 8 b)"

definition put_u64 :: "nat \<Rightarrow> u64 \<Rightarrow> blk \<Rightarrow> blk" where
  "put_u64 off w b = blk_write off (le_bytes 8 w) b"

definition get_u32 :: "nat \<Rightarrow> blk \<Rightarrow> u32" where
  "get_u32 off b = ucast (of_le (blk_read off 4 b))"

definition put_u32 :: "nat \<Rightarrow> u32 \<Rightarrow> blk \<Rightarrow> blk" where
  "put_u32 off w b = blk_write off (le_bytes 4 (ucast w)) b"

lemma ucast_ucast_32 [simp]: "ucast (ucast (w :: u32) :: u64) = w"
  by (rule bit_eqI) (auto simp: bit_simps dest: bit_imp_le_length)

lemma get_put_u64 [blk_simps]: "get_u64 off (put_u64 off w b) = w"
  by (simp add: get_u64_def put_u64_def blk_simps)

lemma get_put_u32 [blk_simps]: "get_u32 off (put_u32 off w b) = w"
  by (simp add: get_u32_def put_u32_def blk_simps)

lemma get_u64_write_other [blk_simps]:
  "off + 8 \<le> off' \<or> off' + length bs \<le> off \<Longrightarrow> get_u64 off (blk_write off' bs b) = get_u64 off b"
  by (simp add: get_u64_def blk_simps)

lemma get_u32_write_other [blk_simps]:
  "off + 4 \<le> off' \<or> off' + length bs \<le> off \<Longrightarrow> get_u32 off (blk_write off' bs b) = get_u32 off b"
  by (simp add: get_u32_def blk_simps)

lemma get_u64_put_other [blk_simps]:
  "off + 8 \<le> off' \<or> off' + 8 \<le> off \<Longrightarrow> get_u64 off (put_u64 off' w b) = get_u64 off b"
  "off + 8 \<le> off' \<or> off' + 4 \<le> off \<Longrightarrow> get_u64 off (put_u32 off' v b) = get_u64 off b"
  by (simp_all add: put_u64_def put_u32_def blk_simps)

lemma get_u32_put_other [blk_simps]:
  "off + 4 \<le> off' \<or> off' + 8 \<le> off \<Longrightarrow> get_u32 off (put_u64 off' w b) = get_u32 off b"
  "off + 4 \<le> off' \<or> off' + 4 \<le> off \<Longrightarrow> get_u32 off (put_u32 off' v b) = get_u32 off b"
  by (simp_all add: put_u64_def put_u32_def blk_simps)

lemma blk_read_put_other [blk_simps]:
  "off + n \<le> off' \<or> off' + 8 \<le> off \<Longrightarrow> blk_read off n (put_u64 off' w b) = blk_read off n b"
  "off + n \<le> off' \<or> off' + 4 \<le> off \<Longrightarrow> blk_read off n (put_u32 off' v b) = blk_read off n b"
  by (simp_all add: put_u64_def put_u32_def blk_simps)

section \<open>C strings\<close>

text \<open>A name is its list of bytes without the terminating NUL; \<open>cstr\<close> adds the terminator.\<close>

type_synonym bytes = "u8 list"

definition cstr :: "bytes \<Rightarrow> bytes" where
  "cstr s = s @ [0]"

definition name_ok :: "bytes \<Rightarrow> bool" where
  "name_ok s \<longleftrightarrow> s \<noteq> [] \<and> 0 \<notin> set s \<and> length s \<le> 255"

definition bytes_of :: "string \<Rightarrow> bytes" where
  "bytes_of cs = map of_char cs"

text \<open>
  \<open>strcmp\<close> walks both arrays and stops at the first difference or at a common NUL;
  \<open>strcmp_eq\<close> is the test \<open>!strcmp(a, b)\<close>.
\<close>

fun strcmp_eq :: "bytes \<Rightarrow> bytes \<Rightarrow> bool" where
  "strcmp_eq (a # as) (b # bs) = (if a \<noteq> b then False else if a = 0 then True else strcmp_eq as bs)"
| "strcmp_eq _ _ = False"

lemma strcmp_eq_cstr:
  assumes "0 \<notin> set s"
  shows "strcmp_eq xs (cstr s) \<longleftrightarrow> length s < length xs \<and> take (Suc (length s)) xs = cstr s"
  using assms
proof (induction s arbitrary: xs)
  case Nil
  show ?case by (cases xs) (auto simp: cstr_def)
next
  case (Cons c s)
  then show ?case by (cases xs) (auto simp: cstr_def)
qed

lemma strcmp_eq_cstr_cstr:
  assumes "0 \<notin> set s" "0 \<notin> set t"
  shows "strcmp_eq (cstr s @ xs) (cstr t) \<longleftrightarrow> s = t"
  using assms
proof (induction s arbitrary: t)
  case Nil
  then show ?case by (cases t) (auto simp: cstr_def)
next
  case (Cons c s)
  then show ?case by (cases t) (auto simp: cstr_def)
qed

lemma strcmp_eq_unique:
  "strcmp_eq xs (cstr s) \<Longrightarrow> strcmp_eq xs (cstr t) \<Longrightarrow> 0 \<notin> set s \<Longrightarrow> 0 \<notin> set t \<Longrightarrow> s = t"
proof (induction s arbitrary: xs t)
  case Nil
  then show ?case by (cases xs; cases t) (auto simp: cstr_def split: if_splits)
next
  case (Cons c s)
  then obtain ys where xs: "xs = c # ys" by (cases xs) (auto simp: cstr_def split: if_splits)
  then obtain t' where "t = c # t'"
    using Cons.prems by (cases t) (auto simp: cstr_def split: if_splits)
  then show ?case using Cons xs by (auto simp: cstr_def)
qed

section \<open>Bits\<close>

declare push_bit_of_1 [simp del] push_bit_Suc [simp del]

text \<open>
  The C expression \<open>1 << i\<close> has type \<open>int\<close>: 32 bits wide, undefined for \<open>i \<ge> 32\<close>
  (GNU C defines \<open>1 << 31\<close>).  Its conversion to \<open>uint64_t\<close> extends the sign.
\<close>

definition shl_int :: "nat \<Rightarrow> u32 outcome" where
  "shl_int i = (if i < 32 then Done (push_bit i 1) else Fault Undefined_shift)"

definition int_to_u64 :: "u32 \<Rightarrow> u64" where
  "int_to_u64 w = scast w"

lemma bit_int_to_u64_shl:
  "bit (int_to_u64 (push_bit i 1)) n \<longleftrightarrow> (if i < 31 then n = i else i = 31 \<and> 31 \<le> n \<and> n < 64)"
  by (auto simp: int_to_u64_def bit_simps min_def)

text \<open>
  \<open>ffz\<close>: the number of the first zero bit of an \<open>unsigned long\<close>; the kernel leaves it
  undefined for the word without a zero bit.
\<close>

function ffz_from :: "u64 \<Rightarrow> nat \<Rightarrow> nat outcome" where
  "ffz_from w i = (if i < 64 then if bit w i then ffz_from w (Suc i) else Done i else Fault No_zero_bit)"
  by pat_completeness auto
termination
  by (relation "measure (\<lambda>(w, i). 64 - i)") auto

declare ffz_from.simps [simp del]

definition ffz :: "u64 \<Rightarrow> nat outcome" where
  "ffz w = ffz_from w 0"

lemma ffz_from_Done:
  "ffz_from w i = Done j \<Longrightarrow> i \<le> j \<and> j < 64 \<and> \<not> bit w j \<and> (\<forall>k. i \<le> k \<and> k < j \<longrightarrow> bit w k)"
proof (induction w i rule: ffz_from.induct)
  case (1 w i)
  show ?case
  proof (cases "i < 64 \<and> bit w i")
    case True
    then have "ffz_from w (Suc i) = Done j"
      using 1 by (simp add: ffz_from.simps [of w i])
    then have "Suc i \<le> j \<and> j < 64 \<and> \<not> bit w j \<and> (\<forall>k. Suc i \<le> k \<and> k < j \<longrightarrow> bit w k)"
      using True "1.IH" by simp
    then show ?thesis using True by (metis Suc_leD le_antisym not_less_eq_eq)
  next
    case False
    then have "i < 64 \<and> \<not> bit w i \<and> j = i"
      using "1.prems" by (auto simp: ffz_from.simps [of w i] split: if_splits)
    then show ?thesis by auto
  qed
qed

lemma ffz_from_ex: "i \<le> k \<Longrightarrow> k < 64 \<Longrightarrow> \<not> bit w k \<Longrightarrow> \<exists>j. ffz_from w i = Done j"
proof (induction w i rule: ffz_from.induct)
  case (1 w i)
  show ?case
  proof (cases "bit w i")
    case True
    then have "Suc i \<le> k" using 1 by (metis Suc_leI le_neq_implies_less)
    then show ?thesis using 1 True by (auto simp: ffz_from.simps [of w i])
  next
    case False
    then show ?thesis using 1 by (auto simp: ffz_from.simps [of w i])
  qed
qed

lemma ffz_Done: "ffz w = Done j \<Longrightarrow> j < 64 \<and> \<not> bit w j \<and> (\<forall>k<j. bit w k)"
  using ffz_from_Done [of w 0 j] by (simp add: ffz_def)

lemma ffz_ex: "k < 64 \<Longrightarrow> \<not> bit w k \<Longrightarrow> \<exists>j. ffz w = Done j"
  unfolding ffz_def by (rule ffz_from_ex) simp_all

text \<open>\<open>set_bit\<close> and \<open>clear_bit\<close> on one \<open>unsigned long\<close>: a bit number past the word touches other memory.\<close>

definition set_bit_ul :: "u64 \<Rightarrow> u64 \<Rightarrow> u64 outcome" where
  "set_bit_ul nr w = (if unat nr < 64 then Done (w OR push_bit (unat nr) 1) else Fault Out_of_bounds)"

definition clear_bit_ul :: "u64 \<Rightarrow> u64 \<Rightarrow> u64 outcome" where
  "clear_bit_ul nr w = (if unat nr < 64 then Done (w AND NOT (push_bit (unat nr) 1)) else Fault Out_of_bounds)"

lemma bit_u64_less: "bit (w :: u64) n \<Longrightarrow> n < 64"
  using bit_imp_le_length [of w n] by simp

lemma bit_or_push_1 [simp]: "n < 64 \<Longrightarrow> bit ((w :: u64) OR push_bit n 1) m \<longleftrightarrow> bit w m \<or> m = n"
  by (auto simp: bit_simps)

lemma bit_and_not_push_1 [simp]:
  "n < 64 \<Longrightarrow> bit ((w :: u64) AND NOT (push_bit n 1)) m \<longleftrightarrow> bit w m \<and> m \<noteq> n"
  by (auto simp: bit_simps dest: bit_imp_le_length)

lemma unat_of_nat_u64 [simp]: "i < 18446744073709551616 \<Longrightarrow> unat (of_nat i :: u64) = i"
  by (simp add: unat_of_nat)

lemma of_nat_u64_inject:
  "i < 18446744073709551616 \<Longrightarrow> j < 18446744073709551616 \<Longrightarrow> (of_nat i :: u64) = of_nat j \<longleftrightarrow> i = j"
  by (metis unat_of_nat_u64)

section \<open>The first index of a range\<close>

lemma find_upt_Some:
  assumes "find P [a..<b] = Some j"
  shows "a \<le> j" "j < b" "P j" "\<And>k. a \<le> k \<Longrightarrow> k < j \<Longrightarrow> \<not> P k"
proof -
  obtain i where i: "i < b - a" "j = a + i" "P j" "\<forall>l < i. \<not> P ([a..<b] ! l)"
    using assms by (auto simp: find_Some_iff)
  then show "a \<le> j" "j < b" "P j" by auto
  show "\<not> P k" if "a \<le> k" "k < j" for k
    using i(4) [rule_format, of "k - a"] i(1,2) that by auto
qed

end
