(* ===== verification/Sfs_Layout.thy ===== *)
theory Sfs_Layout
  imports Sfs_Prelude
begin

text \<open>
  The on-disk layout of \<open>simplefs/simple.h\<close>: its constants, its three structures as records, and
  the position of their fields in a block, as the C compiler lays them out on an LP64 target
  (\<open>sizeof(struct simplefs_inode) = 32\<close>, \<open>sizeof(struct simplefs_dir_record) = 264\<close>).
  A block that holds an array of such structures is an instance of the locale \<open>slot_array\<close>,
  which gives what an access to one slot leaves of the others; the inode store and the directory
  data block are its two interpretations.
\<close>

section \<open>Constants\<close>

abbreviation (input) SIMPLEFS_MAGIC :: u64 where "SIMPLEFS_MAGIC \<equiv> 0x10032013"
abbreviation (input) SIMPLEFS_DEFAULT_BLOCK_SIZE :: nat where "SIMPLEFS_DEFAULT_BLOCK_SIZE \<equiv> 4096"
abbreviation (input) SIMPLEFS_FILENAME_MAXLEN :: nat where "SIMPLEFS_FILENAME_MAXLEN \<equiv> 255"
abbreviation (input) SIMPLEFS_START_INO :: nat where "SIMPLEFS_START_INO \<equiv> 1"
abbreviation (input) SIMPLEFS_ROOTDIR_INODE_NUMBER :: u64 where "SIMPLEFS_ROOTDIR_INODE_NUMBER \<equiv> 1"
abbreviation (input) SIMPLEFS_SUPERBLOCK_BLOCK_NUMBER :: u64 where "SIMPLEFS_SUPERBLOCK_BLOCK_NUMBER \<equiv> 0"
abbreviation (input) SIMPLEFS_INODESTORE_BLOCK_NUMBER :: u64 where "SIMPLEFS_INODESTORE_BLOCK_NUMBER \<equiv> 1"
abbreviation (input) SIMPLEFS_ROOTDIR_DATABLOCK_NUMBER :: u64 where "SIMPLEFS_ROOTDIR_DATABLOCK_NUMBER \<equiv> 2"
abbreviation (input) SIMPLEFS_MAX_FILESYSTEM_OBJECTS_SUPPORTED :: nat
  where "SIMPLEFS_MAX_FILESYSTEM_OBJECTS_SUPPORTED \<equiv> 64"

text \<open>File type bits of a mode (\<open>S_ISDIR\<close> and \<open>S_ISREG\<close> of the C library and the kernel).\<close>

abbreviation (input) S_IFMT :: u16 where "S_IFMT \<equiv> 0xF000"
abbreviation (input) S_IFDIR :: u16 where "S_IFDIR \<equiv> 0x4000"
abbreviation (input) S_IFREG :: u16 where "S_IFREG \<equiv> 0x8000"

definition S_ISDIR :: "u16 \<Rightarrow> bool" where
  "S_ISDIR m \<longleftrightarrow> m AND S_IFMT = S_IFDIR"

definition S_ISREG :: "u16 \<Rightarrow> bool" where
  "S_ISREG m \<longleftrightarrow> m AND S_IFMT = S_IFREG"

lemma S_ISDIR_not_REG: "S_ISDIR m \<Longrightarrow> \<not> S_ISREG m"
  by (simp add: S_ISDIR_def S_ISREG_def)

section \<open>Structures\<close>

text \<open>
  The 256 bytes of \<open>filename\<close> are the array of 255 characters and the alignment byte after it,
  which is what a copy of the structure moves before \<open>inode_no\<close>.
\<close>

record simplefs_dir_record =
  filename :: bytes
  rec_inode_no :: u64

text \<open>The anonymous union of \<open>file_size\<close> and \<open>dir_children_count\<close> is the one word \<open>isize\<close>.\<close>

record simplefs_inode =
  mode :: u32
  inode_no :: u64
  data_block_number :: u64
  isize :: u64

abbreviation file_size :: "simplefs_inode \<Rightarrow> u64" where "file_size nd \<equiv> isize nd"
abbreviation dir_children_count :: "simplefs_inode \<Rightarrow> u64" where "dir_children_count nd \<equiv> isize nd"

record simplefs_super_block =
  version :: u64
  magic :: u64
  block_size :: u64
  inodes_count :: u64
  free_blocks :: u64

abbreviation (input) SIZEOF_INODE :: nat where "SIZEOF_INODE \<equiv> 32"
abbreviation (input) SIZEOF_DIR_RECORD :: nat where "SIZEOF_DIR_RECORD \<equiv> 264"
abbreviation (input) OFFSETOF_REC_INODE_NO :: nat where "OFFSETOF_REC_INODE_NO \<equiv> 256"

text \<open>The number of whole structures in a block, the bound of every loop over one.\<close>

abbreviation (input) INODES_PER_BLOCK :: nat where "INODES_PER_BLOCK \<equiv> 128"
abbreviation (input) RECORDS_PER_BLOCK :: nat where "RECORDS_PER_BLOCK \<equiv> 15"

lemma slots_per_block:
  "SIMPLEFS_DEFAULT_BLOCK_SIZE div SIZEOF_INODE = INODES_PER_BLOCK"
  "SIMPLEFS_DEFAULT_BLOCK_SIZE div SIZEOF_DIR_RECORD = RECORDS_PER_BLOCK"
  by simp_all

section \<open>Structures in a block\<close>

text \<open>Reading and writing the structure at index \<open>i\<close> of the array a block holds.  The four
  bytes between \<open>mode\<close> and \<open>inode_no\<close> are padding that no access reads.\<close>

definition rd_inode :: "nat \<Rightarrow> blk \<Rightarrow> simplefs_inode" where
  "rd_inode i b =
     \<lparr>mode = get_u32 (SIZEOF_INODE * i) b,
      inode_no = get_u64 (SIZEOF_INODE * i + 8) b,
      data_block_number = get_u64 (SIZEOF_INODE * i + 16) b,
      isize = get_u64 (SIZEOF_INODE * i + 24) b\<rparr>"

definition wr_inode :: "nat \<Rightarrow> simplefs_inode \<Rightarrow> blk \<Rightarrow> blk" where
  "wr_inode i nd b =
     put_u64 (SIZEOF_INODE * i + 24) (isize nd)
       (put_u64 (SIZEOF_INODE * i + 16) (data_block_number nd)
         (put_u64 (SIZEOF_INODE * i + 8) (inode_no nd)
           (put_u32 (SIZEOF_INODE * i) (mode nd) b)))"

text \<open>\<open>memset(p, 0, sizeof(struct simplefs_inode))\<close>\<close>

definition clr_inode :: "nat \<Rightarrow> blk \<Rightarrow> blk" where
  "clr_inode i b = blk_write (SIZEOF_INODE * i) (replicate SIZEOF_INODE 0) b"

definition rd_record :: "nat \<Rightarrow> blk \<Rightarrow> simplefs_dir_record" where
  "rd_record i b =
     \<lparr>filename = blk_read (SIZEOF_DIR_RECORD * i) OFFSETOF_REC_INODE_NO b,
      rec_inode_no = get_u64 (SIZEOF_DIR_RECORD * i + OFFSETOF_REC_INODE_NO) b\<rparr>"

text \<open>The two assignments of a new directory entry: \<open>p->inode_no = no\<close> and \<open>strcpy(p->filename, name)\<close>.\<close>

definition set_record_inode_no :: "nat \<Rightarrow> u64 \<Rightarrow> blk \<Rightarrow> blk" where
  "set_record_inode_no i no b = put_u64 (SIZEOF_DIR_RECORD * i + OFFSETOF_REC_INODE_NO) no b"

definition strcpy_record_filename :: "nat \<Rightarrow> bytes \<Rightarrow> blk \<Rightarrow> blk" where
  "strcpy_record_filename i name b = blk_write (SIZEOF_DIR_RECORD * i) (cstr name) b"

definition clr_record :: "nat \<Rightarrow> blk \<Rightarrow> blk" where
  "clr_record i b = blk_write (SIZEOF_DIR_RECORD * i) (replicate SIZEOF_DIR_RECORD 0) b"

definition rd_super :: "blk \<Rightarrow> simplefs_super_block" where
  "rd_super b =
     \<lparr>version = get_u64 0 b, magic = get_u64 8 b, block_size = get_u64 16 b,
      inodes_count = get_u64 24 b, free_blocks = get_u64 32 b\<rparr>"

definition wr_super :: "simplefs_super_block \<Rightarrow> blk \<Rightarrow> blk" where
  "wr_super sb b =
     put_u64 32 (free_blocks sb)
       (put_u64 24 (inodes_count sb)
         (put_u64 16 (block_size sb) (put_u64 8 (magic sb) (put_u64 0 (version sb) b))))"

lemma rd_wr_super [blk_simps]: "rd_super (wr_super sb b) = sb"
  by (cases sb) (simp add: rd_super_def wr_super_def blk_simps)

section \<open>Arrays of structures\<close>

definition slots :: "(nat \<Rightarrow> blk \<Rightarrow> 'r) \<Rightarrow> nat \<Rightarrow> blk \<Rightarrow> 'r list" where
  "slots rd n b = map (\<lambda>i. rd i b) [0..<n]"

lemma length_slots [simp]: "length (slots rd n b) = n"
  by (simp add: slots_def)

lemma nth_slots [simp]: "i < n \<Longrightarrow> slots rd n b ! i = rd i b"
  by (simp add: slots_def)

lemma in_set_slots: "r \<in> set (slots rd n b) \<longleftrightarrow> (\<exists>i<n. r = rd i b)"
  by (auto simp: slots_def)

definition same_slot :: "nat \<Rightarrow> nat \<Rightarrow> blk \<Rightarrow> blk \<Rightarrow> bool" where
  "same_slot sz i b b' \<longleftrightarrow> (\<forall>k. sz * i \<le> k \<and> k < sz * Suc i \<longrightarrow> b k = b' k)"

text \<open>\<open>only_slot sz j b b'\<close>: a change of block \<open>b\<close> into \<open>b'\<close> that stays inside slot \<open>j\<close>.\<close>

definition only_slot :: "nat \<Rightarrow> nat \<Rightarrow> blk \<Rightarrow> blk \<Rightarrow> bool" where
  "only_slot sz j b b' \<longleftrightarrow> (\<forall>k. \<not> (sz * j \<le> k \<and> k < sz * Suc j) \<longrightarrow> b' k = b k)"

lemma only_slot_refl [simp]: "only_slot sz j b b"
  by (simp add: only_slot_def)

lemma only_slot_write:
  "only_slot sz j b b' \<Longrightarrow> sz * j \<le> off \<Longrightarrow> off + length bs \<le> sz * Suc j \<Longrightarrow>
   only_slot sz j b (blk_write off bs b')"
  by (auto simp: only_slot_def blk_write_def)

lemma only_slot_other: "only_slot sz j b b' \<Longrightarrow> i \<noteq> j \<Longrightarrow> same_slot sz i b' b"
proof -
  assume "only_slot sz j b b'" "i \<noteq> j"
  moreover have "sz * Suc i \<le> sz * j \<or> sz * Suc j \<le> sz * i"
    using \<open>i \<noteq> j\<close> by (metis Suc_leI mult_le_mono2 nat_neq_iff)
  ultimately show ?thesis by (auto simp: same_slot_def only_slot_def)
qed

lemma same_slot_blk_read:
  "same_slot sz i b b' \<Longrightarrow> sz * i \<le> off \<Longrightarrow> off + k \<le> sz * Suc i \<Longrightarrow> blk_read off k b = blk_read off k b'"
  by (auto simp: same_slot_def list_eq_iff_nth_eq)

text \<open>
  The contract of a packed array: the \<open>n\<close> slots of \<open>sz\<close> bytes fit the block, and reading a slot
  depends on the bytes of that slot only.
\<close>

locale slot_array =
  fixes rd :: "nat \<Rightarrow> blk \<Rightarrow> 'r" and sz n :: nat
  assumes fits: "sz * n \<le> BLOCK_SIZE"
    and rd_local: "same_slot sz i b b' \<Longrightarrow> rd i b = rd i b'"
begin

lemma slot_offset_fits: "i < n \<Longrightarrow> sz * Suc i \<le> BLOCK_SIZE"
  using fits by (meson Suc_leI le_trans mult_le_mono2)

lemma rd_other_slot: "only_slot sz j b b' \<Longrightarrow> i \<noteq> j \<Longrightarrow> rd i b' = rd i b"
  by (rule rd_local) (rule only_slot_other)

lemma slots_only_slot:
  assumes "only_slot sz j b b'"
  shows "slots rd n b' = (slots rd n b)[j := rd j b']"
proof (rule nth_equalityI)
  fix i assume "i < length (slots rd n b')"
  then show "slots rd n b' ! i = (slots rd n b)[j := rd j b'] ! i"
    using rd_other_slot [OF assms] by (cases "i = j") simp_all
qed simp

lemma slots_cong:
  assumes "\<And>k. k < sz * n \<Longrightarrow> b k = b' k"
  shows "slots rd n b = slots rd n b'"
proof (rule nth_equalityI)
  fix i assume "i < length (slots rd n b)"
  then have "i < n" by simp
  then have "sz * Suc i \<le> sz * n" by (metis Suc_leI mult_le_mono2)
  then have "same_slot sz i b b'"
    using assms by (auto simp: same_slot_def)
  then show "slots rd n b ! i = slots rd n b' ! i"
    using \<open>i < n\<close> by (simp add: rd_local)
qed simp

end

text \<open>A packed array with an operation that zeroes a slot; \<open>zero\<close> is the structure such a slot holds.\<close>

locale slot_clear = slot_array rd sz n
  for rd :: "nat \<Rightarrow> blk \<Rightarrow> 'r" and sz n :: nat +
  fixes clr :: "nat \<Rightarrow> blk \<Rightarrow> blk" and zero :: 'r
  assumes rd_clr: "rd i (clr i b) = zero"
    and clr_only: "only_slot sz i b (clr i b)"
begin

lemma rd_clr_iff: "rd j (clr i b) = (if i = j then zero else rd j b)"
  using rd_clr rd_other_slot [OF clr_only] by (cases "i = j") simp_all

lemma slots_clr: "slots rd n (clr i b) = (slots rd n b)[i := zero]"
  by (simp add: slots_only_slot [OF clr_only] rd_clr)

end

text \<open>A packed array with, in addition, an operation that stores a whole structure in a slot.\<close>

locale slot_store = slot_clear rd sz n clr zero
  for rd :: "nat \<Rightarrow> blk \<Rightarrow> 'r" and sz n :: nat and clr :: "nat \<Rightarrow> blk \<Rightarrow> blk" and zero :: 'r +
  fixes wr :: "nat \<Rightarrow> 'r \<Rightarrow> blk \<Rightarrow> blk"
  assumes rd_wr: "rd i (wr i r b) = r"
    and wr_only: "only_slot sz i b (wr i r b)"
begin

lemma rd_wr_iff: "rd j (wr i r b) = (if i = j then r else rd j b)"
  using rd_wr rd_other_slot [OF wr_only] by (cases "i = j") simp_all

lemma slots_wr: "slots rd n (wr i r b) = (slots rd n b)[i := r]"
  by (simp add: slots_only_slot [OF wr_only] rd_wr)

end

abbreviation zero_inode :: simplefs_inode where
  "zero_inode \<equiv> \<lparr>mode = 0, inode_no = 0, data_block_number = 0, isize = 0\<rparr>"

abbreviation zero_record :: simplefs_dir_record where
  "zero_record \<equiv> \<lparr>filename = replicate OFFSETOF_REC_INODE_NO 0, rec_inode_no = 0\<rparr>"

lemma blk_read_write_zero:
  "off' \<le> off \<Longrightarrow> off + n \<le> off' + m \<Longrightarrow> blk_read off n (blk_write off' (replicate m 0) b) = replicate n 0"
  by (simp add: list_eq_iff_nth_eq blk_write_def)

interpretation inodes: slot_store rd_inode SIZEOF_INODE INODES_PER_BLOCK clr_inode zero_inode wr_inode
proof unfold_locales
  show "same_slot SIZEOF_INODE i b b' \<Longrightarrow> rd_inode i b = rd_inode i b'" for i b b'
    by (simp add: rd_inode_def get_u32_def get_u64_def same_slot_blk_read)
  show "rd_inode i (clr_inode i b) = zero_inode" for i b
    by (simp add: rd_inode_def clr_inode_def get_u32_def get_u64_def blk_read_write_zero)
  show "only_slot SIZEOF_INODE i b (clr_inode i b)" for i b
    by (simp add: clr_inode_def only_slot_write)
  show "rd_inode i (wr_inode i r b) = r" for i r b
    by (cases r) (simp add: rd_inode_def wr_inode_def blk_simps)
  show "only_slot SIZEOF_INODE i b (wr_inode i r b)" for i r b
    by (simp add: wr_inode_def put_u64_def put_u32_def only_slot_write)
qed simp

interpretation records: slot_clear rd_record SIZEOF_DIR_RECORD RECORDS_PER_BLOCK clr_record zero_record
proof unfold_locales
  show "same_slot SIZEOF_DIR_RECORD i b b' \<Longrightarrow> rd_record i b = rd_record i b'" for i b b'
    by (simp add: rd_record_def get_u64_def same_slot_blk_read)
  show "rd_record i (clr_record i b) = zero_record" for i b
    by (simp add: rd_record_def clr_record_def get_u64_def blk_read_write_zero)
  show "only_slot SIZEOF_DIR_RECORD i b (clr_record i b)" for i b
    by (simp add: clr_record_def only_slot_write)
qed simp

subsection \<open>A new directory record\<close>

definition new_record :: "nat \<Rightarrow> bytes \<Rightarrow> u64 \<Rightarrow> blk \<Rightarrow> blk" where
  "new_record i name no b = strcpy_record_filename i name (set_record_inode_no i no b)"

lemma new_record_only_slot:
  "length name \<le> 255 \<Longrightarrow> only_slot SIZEOF_DIR_RECORD i b (new_record i name no b)"
  by (simp add: new_record_def strcpy_record_filename_def set_record_inode_no_def put_u64_def
      cstr_def only_slot_write)

lemma rd_new_record:
  assumes "length name \<le> 255"
  shows "rec_inode_no (rd_record i (new_record i name no b)) = no"
    and "\<exists>xs. filename (rd_record i (new_record i name no b)) = cstr name @ xs"
proof -
  show "rec_inode_no (rd_record i (new_record i name no b)) = no"
    using assms by (simp add: rd_record_def new_record_def strcpy_record_filename_def
        set_record_inode_no_def cstr_def blk_simps)
  let ?f = "filename (rd_record i (new_record i name no b))"
  have "take (length (cstr name)) ?f = cstr name"
    using assms by (simp add: rd_record_def new_record_def strcpy_record_filename_def
        blk_read_write_prefix min_def) (simp add: cstr_def)
  then show "\<exists>xs. ?f = cstr name @ xs"
    by (metis append_take_drop_id)
qed

end
