(* ===== verification/Sfs_Kernel.thy ===== *)
theory Sfs_Kernel
  imports Sfs_Layout
begin

text \<open>
  What \<open>simplefs/simple.c\<close> uses of the kernel.  Behaviour that the module cannot decide is the
  environment \<open>kenv\<close>, an argument of every operation that depends on it: which attempts to take a
  mutex a signal interrupts, which allocations and block reads fail, how much of a user copy is
  left undone, what an uninitialised slab object holds, the clock, and the mode
  \<open>inode_init_owner\<close> gives an inode.  Each query advances the counter \<open>tick\<close> of the state, so two
  queries of one run are independent.  The state holds the buffer cache and the device behind it,
  the dirty marks and reference counts of the buffers, and the mutexes the running task holds.
\<close>

named_theorems calm_simps \<open>kernel services in an undisturbed environment\<close>

section \<open>Environment and state\<close>

record kenv =
  intr :: "nat \<Rightarrow> bool"
  alloc_fails :: "nat \<Rightarrow> bool"
  io_fails :: "nat \<Rightarrow> bool"
  uncopied :: "nat \<Rightarrow> nat"
  junk :: "nat \<Rightarrow> simplefs_dir_record"
  clock :: "nat \<Rightarrow> nat"
  owner_mode :: "u16 option \<Rightarrow> u16 \<Rightarrow> u16"

datatype mutex =
    simplefs_sb_lock
  | simplefs_inodes_mgmt_lock
  | simplefs_directory_children_update_lock

record kstate =
  cache :: "u64 \<Rightarrow> blk"
  disk :: "u64 \<Rightarrow> blk"
  dirty :: "u64 \<Rightarrow> bool"
  refs :: "u64 \<Rightarrow> nat"
  held :: "mutex \<Rightarrow> bool"
  tick :: nat

section \<open>Services\<close>

text \<open>\<open>mutex_lock_interruptible\<close> returns whether a signal interrupted it.\<close>

definition mutex_lock_interruptible ::
    "kenv \<Rightarrow> mutex \<Rightarrow> 'a kstate_scheme \<Rightarrow> (bool \<times> 'a kstate_scheme) outcome" where
  "mutex_lock_interruptible e l s =
     (if intr e (tick s) then Done (True, s\<lparr>tick := Suc (tick s)\<rparr>)
      else if held s l then Fault Self_deadlock
      else Done (False, s\<lparr>held := (held s)(l := True), tick := Suc (tick s)\<rparr>))"

definition mutex_unlock :: "mutex \<Rightarrow> 'a kstate_scheme \<Rightarrow> 'a kstate_scheme outcome" where
  "mutex_unlock l s =
     (if held s l then Done (s\<lparr>held := (held s)(l := False)\<rparr>) else Fault Bad_unlock)"

text \<open>
  \<open>sb_bread\<close> returns whether the buffer of the block is available, and takes a reference on it;
  its data is then the entry of the block in \<open>cache\<close>.  \<open>brelse\<close> drops a reference.
\<close>

definition sb_bread :: "kenv \<Rightarrow> u64 \<Rightarrow> 'a kstate_scheme \<Rightarrow> bool \<times> 'a kstate_scheme" where
  "sb_bread e n s =
     (if io_fails e (tick s) then (False, s\<lparr>tick := Suc (tick s)\<rparr>)
      else (True, s\<lparr>refs := (refs s)(n := Suc (refs s n)), tick := Suc (tick s)\<rparr>))"

definition brelse :: "u64 \<Rightarrow> 'a kstate_scheme \<Rightarrow> 'a kstate_scheme" where
  "brelse n s = s\<lparr>refs := (refs s)(n := refs s n - 1)\<rparr>"

definition set_data :: "u64 \<Rightarrow> blk \<Rightarrow> 'a kstate_scheme \<Rightarrow> 'a kstate_scheme" where
  "set_data n b s = s\<lparr>cache := (cache s)(n := b)\<rparr>"

definition mark_buffer_dirty :: "u64 \<Rightarrow> 'a kstate_scheme \<Rightarrow> 'a kstate_scheme" where
  "mark_buffer_dirty n s = s\<lparr>dirty := (dirty s)(n := True)\<rparr>"

definition sync_dirty_buffer :: "u64 \<Rightarrow> 'a kstate_scheme \<Rightarrow> 'a kstate_scheme" where
  "sync_dirty_buffer n s =
     (if dirty s n
      then s\<lparr>disk := (disk s)(n := cache s n), dirty := (dirty s)(n := False)\<rparr> else s)"

text \<open>\<open>kzalloc\<close>, \<open>kmem_cache_alloc\<close> and \<open>new_inode\<close>: whether the allocation succeeds.\<close>

definition alloc :: "kenv \<Rightarrow> 'a kstate_scheme \<Rightarrow> bool \<times> 'a kstate_scheme" where
  "alloc e s = (\<not> alloc_fails e (tick s), s\<lparr>tick := Suc (tick s)\<rparr>)"

text \<open>
  The number of bytes \<open>copy_to_user\<close> and \<open>copy_from_user\<close> leave uncopied out of \<open>n\<close>.
\<close>

definition user_copy :: "kenv \<Rightarrow> nat \<Rightarrow> 'a kstate_scheme \<Rightarrow> nat \<times> 'a kstate_scheme" where
  "user_copy e n s = (min n (uncopied e (tick s)), s\<lparr>tick := Suc (tick s)\<rparr>)"

definition current_time :: "kenv \<Rightarrow> 'a kstate_scheme \<Rightarrow> nat \<times> 'a kstate_scheme" where
  "current_time e s = (clock e (tick s), s\<lparr>tick := Suc (tick s)\<rparr>)"

section \<open>An undisturbed environment\<close>

text \<open>
  \<open>calm\<close>: no signal arrives, allocations and reads succeed and user copies are complete.
  \<open>keeps_type\<close> is what the module relies on of \<open>inode_init_owner\<close>: the file type bits of the mode
  it stores are those of the mode it was given.
\<close>

definition calm :: "kenv \<Rightarrow> bool" where
  "calm e \<longleftrightarrow> (\<forall>n. \<not> intr e n \<and> \<not> alloc_fails e n \<and> \<not> io_fails e n \<and> uncopied e n = 0)"

definition keeps_type :: "kenv \<Rightarrow> bool" where
  "keeps_type e \<longleftrightarrow> (\<forall>p m. owner_mode e p m AND S_IFMT = m AND S_IFMT)"

definition quiet_env :: kenv where
  "quiet_env = \<lparr>intr = (\<lambda>_. False), alloc_fails = (\<lambda>_. False), io_fails = (\<lambda>_. False),
     uncopied = (\<lambda>_. 0), junk = (\<lambda>_. zero_record), clock = (\<lambda>n. n), owner_mode = (\<lambda>_ m. m)\<rparr>"

lemma calm_quiet_env [simp]: "calm quiet_env" "keeps_type quiet_env"
  by (simp_all add: calm_def keeps_type_def quiet_env_def)

lemma keeps_type_S_IS:
  assumes "keeps_type e"
  shows "S_ISDIR (owner_mode e p m) = S_ISDIR m" "S_ISREG (owner_mode e p m) = S_ISREG m"
  using assms by (simp_all add: keeps_type_def S_ISDIR_def S_ISREG_def)

lemma calm_mutex_lock [calm_simps]:
  "calm e \<Longrightarrow> \<not> held s l \<Longrightarrow>
   mutex_lock_interruptible e l s =
     Done (False, s\<lparr>held := (held s)(l := True), tick := Suc (tick s)\<rparr>)"
  by (simp add: mutex_lock_interruptible_def calm_def)

lemma calm_sb_bread [calm_simps]:
  "calm e \<Longrightarrow>
   sb_bread e n s = (True, s\<lparr>refs := (refs s)(n := Suc (refs s n)), tick := Suc (tick s)\<rparr>)"
  by (simp add: sb_bread_def calm_def)

lemma calm_alloc [calm_simps]: "calm e \<Longrightarrow> alloc e s = (True, s\<lparr>tick := Suc (tick s)\<rparr>)"
  by (simp add: alloc_def calm_def)

lemma calm_user_copy [calm_simps]: "calm e \<Longrightarrow> user_copy e n s = (0, s\<lparr>tick := Suc (tick s)\<rparr>)"
  by (simp add: user_copy_def calm_def)

lemma unlock_held [calm_simps]:
  "held s l \<Longrightarrow> mutex_unlock l s = Done (s\<lparr>held := (held s)(l := False)\<rparr>)"
  by (simp add: mutex_unlock_def)

lemmas buffer_defs =
  brelse_def set_data_def mark_buffer_dirty_def sync_dirty_buffer_def

lemma fun_upd_False [simp]: "\<not> f l \<Longrightarrow> f(l := False) = f"
  by (auto simp: fun_eq_iff)

lemma interrupted_lock:
  "intr e (tick s) \<Longrightarrow> mutex_lock_interruptible e l s = Done (True, s\<lparr>tick := Suc (tick s)\<rparr>)"
  by (simp add: mutex_lock_interruptible_def)

end
