(* ===== verification/Sfs_Dir_Cache.thy ===== *)
theory Sfs_Dir_Cache
  imports Sfs_Kernel
begin

text \<open>
  The directory cache of \<open>simplefs/simple.c\<close> (lines 43 to 162): one entry object per record of
  the directory's data block, on the list \<open>used\<close> or on the list \<open>free\<close>.  A kernel \<open>list_head\<close> chain
  is a list; an entry object is identified by its \<open>entry_no\<close>, since \<open>dir_cache_build\<close> makes
  one object per number, so \<open>list_del\<close> removes the entry with that number from its list.
\<close>

section \<open>Entries and lists\<close>

record simplefs_cache_entry =
  record_of :: simplefs_dir_record
  entry_no :: nat

record simplefs_dir_cache =
  cached_children_count :: u64
  used :: "simplefs_cache_entry list"
  free :: "simplefs_cache_entry list"

definition list_del_entry :: "simplefs_cache_entry \<Rightarrow> simplefs_cache_entry list \<Rightarrow> simplefs_cache_entry list" where
  "list_del_entry c xs = filter (\<lambda>d. entry_no d \<noteq> entry_no c) xs"

text \<open>\<open>simplefs_cache_alloc\<close>: \<open>Inl\<close> is the error pointer \<open>ERR_PTR(-ENOMEM)\<close>.\<close>

definition simplefs_cache_alloc ::
    "kenv \<Rightarrow> 'a kstate_scheme \<Rightarrow> (int + simplefs_dir_cache) \<times> 'a kstate_scheme" where
  "simplefs_cache_alloc e s =
     (let (ok, s) = alloc e s in
      if \<not> ok then (Inl (- ENOMEM), s)
      else (Inr \<lparr>cached_children_count = 0, used = [], free = []\<rparr>, s))"

text \<open>
  \<open>dir_cache_build\<close> walks the records of the block with the loop counter \<open>i\<close>; the
  record of an entry put on \<open>free\<close> is whatever the slab object held.
\<close>

function dir_cache_build_from ::
    "kenv \<Rightarrow> blk \<Rightarrow> nat \<Rightarrow> simplefs_dir_cache \<Rightarrow> 'a kstate_scheme \<Rightarrow>
     int \<times> simplefs_dir_cache \<times> 'a kstate_scheme" where
  "dir_cache_build_from e b i dc s =
     (if i < RECORDS_PER_BLOCK
      then let t = tick s; (ok, s) = alloc e s in
           if \<not> ok then (- ENOMEM, dc, s)
           else let r = rd_record i b in
                if rec_inode_no r \<noteq> 0
                then dir_cache_build_from e b (Suc i)
                       (dc\<lparr>used := used dc @ [\<lparr>record_of = r, entry_no = i\<rparr>]\<rparr>) s
                else dir_cache_build_from e b (Suc i)
                       (dc\<lparr>free := free dc @ [\<lparr>record_of = junk e t, entry_no = i\<rparr>]\<rparr>) s
      else (0, dc, s))"
  by pat_completeness auto
termination
  by (relation "measure (\<lambda>(e, b, i, dc, s). RECORDS_PER_BLOCK - i)") auto

declare dir_cache_build_from.simps [simp del]

definition dir_cache_build ::
    "kenv \<Rightarrow> simplefs_dir_cache \<Rightarrow> blk \<Rightarrow> 'a kstate_scheme \<Rightarrow> int \<times> simplefs_dir_cache \<times> 'a kstate_scheme" where
  "dir_cache_build e dc b s = dir_cache_build_from e b 0 dc s"

text \<open>\<open>used_cache_entry_get\<close>: the first entry of \<open>used\<close> whose name compares equal, or NULL.\<close>

fun used_entry_search :: "simplefs_cache_entry list \<Rightarrow> bytes \<Rightarrow> simplefs_cache_entry option" where
  "used_entry_search [] name = None"
| "used_entry_search (c # cs) name =
     (if strcmp_eq (filename (record_of c)) (cstr name) then Some c else used_entry_search cs name)"

definition used_cache_entry_get :: "simplefs_dir_cache \<Rightarrow> bytes \<Rightarrow> simplefs_cache_entry option" where
  "used_cache_entry_get dc name = used_entry_search (used dc) name"

text \<open>
  \<open>free_cache_entry_get\<close>: \<open>list_first_entry\<close> of \<open>free\<close>.  On an empty list it computes a pointer
  to memory before the list head, which is no entry object: the value \<open>None\<close>.
\<close>

definition free_cache_entry_get :: "simplefs_dir_cache \<Rightarrow> simplefs_cache_entry option" where
  "free_cache_entry_get dc = (case free dc of [] \<Rightarrow> None | c # _ \<Rightarrow> Some c)"

text \<open>
  \<open>cache_entry_insert(&used, c)\<close>: unlink \<open>c\<close> from the list it is on, then insert it before the
  first entry with a greater number, at the end if there is none.
\<close>

fun insert_before_greater :: "simplefs_cache_entry \<Rightarrow> simplefs_cache_entry list \<Rightarrow> simplefs_cache_entry list" where
  "insert_before_greater c [] = [c]"
| "insert_before_greater c (d # ds) =
     (if entry_no c < entry_no d then c # d # ds else d # insert_before_greater c ds)"

definition cache_entry_insert :: "simplefs_cache_entry \<Rightarrow> simplefs_dir_cache \<Rightarrow> simplefs_dir_cache" where
  "cache_entry_insert c dc =
     dc\<lparr>used := insert_before_greater c (list_del_entry c (used dc)),
        free := list_del_entry c (free dc)\<rparr>"

text \<open>The part of \<open>simplefs_unlink\<close> that works on the cache (lines 909 to 914).\<close>

definition cache_entry_release :: "simplefs_cache_entry \<Rightarrow> simplefs_dir_cache \<Rightarrow> simplefs_dir_cache" where
  "cache_entry_release c dc =
     dc\<lparr>used := list_del_entry c (used dc), free := c # list_del_entry c (free dc),
        cached_children_count := cached_children_count dc - 1\<rparr>"

section \<open>Adding and removing a directory entry\<close>

text \<open>
  Lines 828 to 835 of \<open>simplefs_create_fs_object\<close>: the record with the number of the entry taken
  from \<open>free\<close> gets the inode number and the name, is copied into the entry, and the entry moves to
  \<open>used\<close>.  Reading \<open>entry_no\<close> through the pointer computed from an empty list is an access outside
  every entry object.
\<close>

definition dir_add_entry ::
    "bytes \<Rightarrow> u64 \<Rightarrow> simplefs_cache_entry option \<Rightarrow> simplefs_dir_cache \<Rightarrow> blk \<Rightarrow>
     (simplefs_dir_cache \<times> blk) outcome" where
  "dir_add_entry name no co dc b =
     (case co of
        None \<Rightarrow> Fault Out_of_bounds
      | Some c \<Rightarrow>
          bnd (guard (SIZEOF_DIR_RECORD * entry_no c + max SIZEOF_DIR_RECORD (length (cstr name)) \<le> BLOCK_SIZE)
                 Out_of_bounds) (\<lambda>_.
          let b = new_record (entry_no c) name no b;
              c = c\<lparr>record_of := rd_record (entry_no c) b\<rparr>
          in Done (cache_entry_insert c dc, b)))"

text \<open>Lines 901 to 903 and 910 to 914 of \<open>simplefs_unlink\<close>: the entry is looked up by name, its record
  is zeroed and it moves to \<open>free\<close>.\<close>

definition dir_remove_entry ::
    "bytes \<Rightarrow> simplefs_dir_cache \<Rightarrow> blk \<Rightarrow> (simplefs_dir_cache \<times> blk) outcome" where
  "dir_remove_entry name dc b =
     (case used_cache_entry_get dc name of
        None \<Rightarrow> Fault Null_deref
      | Some c \<Rightarrow>
          bnd (guard (SIZEOF_DIR_RECORD * entry_no c + SIZEOF_DIR_RECORD \<le> BLOCK_SIZE) Out_of_bounds) (\<lambda>_.
          Done (cache_entry_release c dc, clr_record (entry_no c) b)))"

section \<open>Coherence of the cache with the directory block\<close>

definition is_used :: "blk \<Rightarrow> nat \<Rightarrow> bool" where
  "is_used b i \<longleftrightarrow> rec_inode_no (rd_record i b) \<noteq> 0"

definition entry_at :: "blk \<Rightarrow> nat \<Rightarrow> simplefs_cache_entry" where
  "entry_at b i = \<lparr>record_of = rd_record i b, entry_no = i\<rparr>"

lemma entry_at_simps [simp]: "record_of (entry_at b i) = rd_record i b" "entry_no (entry_at b i) = i"
  by (simp_all add: entry_at_def)

definition used_entries :: "blk \<Rightarrow> nat list \<Rightarrow> simplefs_cache_entry list" where
  "used_entries b is = map (entry_at b) (filter (is_used b) is)"

text \<open>
  The cache agrees with the block: \<open>used\<close> lists the records in use in the order of the block, and
  \<open>free\<close> holds one entry for each of the other records.
\<close>

definition cache_ok :: "simplefs_dir_cache \<Rightarrow> blk \<Rightarrow> bool" where
  "cache_ok dc b \<longleftrightarrow>
     used dc = used_entries b [0..<RECORDS_PER_BLOCK] \<and>
     distinct (map entry_no (free dc)) \<and>
     entry_no ` set (free dc) = {i. i < RECORDS_PER_BLOCK \<and> \<not> is_used b i}"

subsection \<open>Building\<close>

lemma used_entries_simps [simp]:
  "used_entries b [] = []"
  "used_entries b (i # is) = (if is_used b i then entry_at b i # used_entries b is else used_entries b is)"
  by (simp_all add: used_entries_def)

lemma dir_cache_build_from_calm:
  assumes "calm e"
  shows "\<exists>dc'. dir_cache_build_from e b i dc s = (0, dc', s\<lparr>tick := tick s + (RECORDS_PER_BLOCK - i)\<rparr>) \<and>
     cached_children_count dc' = cached_children_count dc \<and>
     used dc' = used dc @ used_entries b [i..<RECORDS_PER_BLOCK] \<and>
     map entry_no (free dc') = map entry_no (free dc) @ filter (\<lambda>j. \<not> is_used b j) [i..<RECORDS_PER_BLOCK]"
  using assms
proof (induction e b i dc s rule: dir_cache_build_from.induct)
  case (1 e b i dc s)
  show ?case
  proof (cases "i < RECORDS_PER_BLOCK")
    case False
    then show ?thesis
      by (subst dir_cache_build_from.simps) auto
  next
    case True
    have upt: "[i..<RECORDS_PER_BLOCK] = i # [Suc i..<RECORDS_PER_BLOCK]"
      using True by (simp add: upt_conv_Cons)
    have alloc: "alloc e s = (True, s\<lparr>tick := Suc (tick s)\<rparr>)"
      using "1.prems" by (rule calm_alloc)
    show ?thesis
    proof (cases "is_used b i")
      case used: True
      note IH = "1.IH"(1) [OF True refl alloc [symmetric] refl, simplified, OF refl]
      from used True IH "1.prems" show ?thesis
        by (subst dir_cache_build_from.simps)
          (auto simp: alloc upt is_used_def entry_at_def)
    next
      case False
      note IH = "1.IH"(2) [OF True refl alloc [symmetric] refl, simplified, OF refl]
      from False True IH "1.prems" show ?thesis
        by (subst dir_cache_build_from.simps) (auto simp: alloc upt is_used_def)
    qed
  qed
qed

lemma dir_cache_build_calm:
  assumes "calm e" and "dc = \<lparr>cached_children_count = 0, used = [], free = []\<rparr>"
  shows "\<exists>dc'. dir_cache_build e dc b s = (0, dc', s\<lparr>tick := tick s + RECORDS_PER_BLOCK\<rparr>) \<and> cache_ok dc' b"
proof -
  obtain dc' where dc': "dir_cache_build_from e b 0 dc s = (0, dc', s\<lparr>tick := tick s + (RECORDS_PER_BLOCK - 0)\<rparr>)"
    "used dc' = used dc @ used_entries b [0..<RECORDS_PER_BLOCK]"
    "map entry_no (free dc') = map entry_no (free dc) @ filter (\<lambda>j. \<not> is_used b j) [0..<RECORDS_PER_BLOCK]"
    using dir_cache_build_from_calm [OF assms(1), of b 0 dc s] by blast
  have "map entry_no (free dc') = filter (\<lambda>j. \<not> is_used b j) [0..<RECORDS_PER_BLOCK]"
    using dc'(3) assms(2) by simp
  then have "distinct (map entry_no (free dc'))"
    "entry_no ` set (free dc') = set (filter (\<lambda>j. \<not> is_used b j) [0..<RECORDS_PER_BLOCK])"
    by (metis distinct_filter distinct_upt, metis set_map)
  then have "cache_ok dc' b"
    using dc'(2) assms(2) unfolding cache_ok_def by (auto simp del: upt_rec_numeral)
  then show ?thesis using dc'(1) by (simp add: dir_cache_build_def)
qed

subsection \<open>One record taken into use, one record released\<close>

lemma insert_before_greater_front:
  "\<forall>d \<in> set ds. entry_no c < entry_no d \<Longrightarrow> insert_before_greater c ds = c # ds"
  by (cases ds) simp_all

lemma set_used_entries: "set (used_entries b is) = entry_at b ` {i \<in> set is. is_used b i}"
  by (auto simp: used_entries_def)

lemma used_entries_cong:
  "(\<And>i. i \<in> set is \<Longrightarrow> rd_record i b' = rd_record i b) \<Longrightarrow> used_entries b' is = used_entries b is"
  by (induction "is") (simp_all add: is_used_def entry_at_def)

lemma used_entries_insert:
  assumes "sorted_wrt (<) is" "k \<in> set is" "\<not> is_used b k" "is_used b' k"
    and other: "\<And>i. i \<noteq> k \<Longrightarrow> rd_record i b' = rd_record i b"
  shows "used_entries b' is = insert_before_greater (entry_at b' k) (used_entries b is)"
  using assms(1,2)
proof (induction "is")
  case Nil
  then show ?case by simp
next
  case (Cons i "is")
  show ?case
  proof (cases "i = k")
    case True
    then have "used_entries b' is = used_entries b is"
      using Cons.prems other by (intro used_entries_cong) auto
    moreover have "\<forall>d \<in> set (used_entries b is). k < entry_no d"
      using Cons.prems True by (auto simp: set_used_entries)
    ultimately show ?thesis
      using True assms(3,4) by (simp add: insert_before_greater_front)
  next
    case False
    then have "i < k" "k \<in> set is" using Cons.prems by auto
    then have IH: "used_entries b' is = insert_before_greater (entry_at b' k) (used_entries b is)"
      using Cons by simp
    have "is_used b' i = is_used b i" "entry_at b' i = entry_at b i"
      using other [OF False] by (simp_all add: is_used_def entry_at_def)
    then show ?thesis using IH \<open>i < k\<close> by simp
  qed
qed

lemma used_entries_delete:
  assumes "\<not> is_used b' k" and other: "\<And>i. i \<noteq> k \<Longrightarrow> rd_record i b' = rd_record i b"
    and "entry_no c = k"
  shows "used_entries b' is = list_del_entry c (used_entries b is)"
proof (induction "is")
  case Nil
  then show ?case by (simp add: list_del_entry_def)
next
  case (Cons i "is")
  have "i \<noteq> k \<Longrightarrow> is_used b' i = is_used b i \<and> entry_at b' i = entry_at b i"
    using other by (simp add: is_used_def entry_at_def)
  then show ?case
    using Cons assms(1,3) by (cases "i = k") (simp_all add: list_del_entry_def)
qed

lemma list_del_entry_idem: "entry_no c \<notin> entry_no ` set xs \<Longrightarrow> list_del_entry c xs = xs"
  unfolding list_del_entry_def by (rule filter_True) (metis imageI)

lemma distinct_list_del_entry: "distinct (map entry_no xs) \<Longrightarrow> distinct (map entry_no (list_del_entry c xs))"
  unfolding list_del_entry_def by (rule distinct_map_filter)

lemma set_list_del_entry: "entry_no ` set (list_del_entry c xs) = entry_no ` set xs - {entry_no c}"
  by (auto simp: list_del_entry_def)

lemma cache_ok_insert:
  assumes ok: "cache_ok dc b" and c: "c \<in> set (free dc)"
    and used: "is_used b' (entry_no c)"
    and other: "\<And>i. i \<noteq> entry_no c \<Longrightarrow> rd_record i b' = rd_record i b"
  shows "cache_ok (cache_entry_insert (c\<lparr>record_of := rd_record (entry_no c) b'\<rparr>) dc) b'"
proof -
  let ?k = "entry_no c" and ?c = "c\<lparr>record_of := rd_record (entry_no c) b'\<rparr>"
  have k: "?k < RECORDS_PER_BLOCK" "\<not> is_used b ?k"
    using ok c unfolding cache_ok_def by blast+
  have c_at: "?c = entry_at b' ?k" by (simp add: entry_at_def)
  have used': "is_used b' i \<longleftrightarrow> i = ?k \<or> is_used b i" for i
    using used other [of i] by (cases "i = ?k") (simp_all add: is_used_def)
  have "?k \<notin> entry_no ` set (used dc)"
    using ok k by (auto simp: cache_ok_def set_used_entries)
  then have "list_del_entry ?c (used dc) = used_entries b [0..<RECORDS_PER_BLOCK]"
    using ok by (simp add: list_del_entry_idem cache_ok_def)
  moreover have "used_entries b' [0..<RECORDS_PER_BLOCK]
      = insert_before_greater ?c (used_entries b [0..<RECORDS_PER_BLOCK])"
    unfolding c_at using k used other
    by (intro used_entries_insert sorted_wrt_upt) auto
  moreover have "entry_no ` set (list_del_entry ?c (free dc)) = {i. i < RECORDS_PER_BLOCK \<and> \<not> is_used b' i}"
    using ok used' by (auto simp: set_list_del_entry cache_ok_def)
  ultimately show ?thesis
    using ok by (simp add: cache_ok_def cache_entry_insert_def distinct_list_del_entry)
qed

lemma cache_ok_release:
  assumes ok: "cache_ok dc b" and c: "c \<in> set (used dc)"
    and free: "\<not> is_used b' (entry_no c)"
    and other: "\<And>i. i \<noteq> entry_no c \<Longrightarrow> rd_record i b' = rd_record i b"
  shows "cache_ok (cache_entry_release c dc) b'"
proof -
  let ?k = "entry_no c"
  have k: "?k < RECORDS_PER_BLOCK" "is_used b ?k"
    using ok c by (auto simp: cache_ok_def set_used_entries)
  have used': "is_used b' i \<longleftrightarrow> i \<noteq> ?k \<and> is_used b i" for i
    using free other [of i] by (cases "i = ?k") (simp_all add: is_used_def)
  have notin: "?k \<notin> entry_no ` set (free dc)"
    using ok k unfolding cache_ok_def by blast
  have "list_del_entry c (used dc) = used_entries b' [0..<RECORDS_PER_BLOCK]"
    using ok used_entries_delete [OF free other refl] by (simp add: cache_ok_def)
  moreover have "insert ?k (entry_no ` set (free dc)) = {i. i < RECORDS_PER_BLOCK \<and> \<not> is_used b' i}"
    using ok k used' by (auto simp: cache_ok_def)
  ultimately show ?thesis
    using ok notin by (simp add: cache_ok_def cache_entry_release_def list_del_entry_idem)
qed

section \<open>The directory as a map from names to inode numbers\<close>

definition matches :: "blk \<Rightarrow> nat \<Rightarrow> bytes \<Rightarrow> bool" where
  "matches b i x \<longleftrightarrow> strcmp_eq (filename (rd_record i b)) (cstr x)"

definition names_unique :: "blk \<Rightarrow> bool" where
  "names_unique b \<longleftrightarrow>
     (\<forall>i<RECORDS_PER_BLOCK. \<forall>j<RECORDS_PER_BLOCK. \<forall>x. 0 \<notin> set x \<longrightarrow>
        is_used b i \<longrightarrow> is_used b j \<longrightarrow> matches b i x \<longrightarrow> matches b j x \<longrightarrow> i = j)"

type_synonym directory = "simplefs_dir_cache \<times> blk"

definition dir_inv :: "directory \<Rightarrow> bool" where
  "dir_inv d \<longleftrightarrow> cache_ok (fst d) (snd d) \<and> names_unique (snd d)"

definition dir_lookup :: "directory \<Rightarrow> bytes \<Rightarrow> u64 option" where
  "dir_lookup d x = map_option (\<lambda>c. rec_inode_no (record_of c)) (used_cache_entry_get (fst d) x)"

definition dir_room :: "directory \<Rightarrow> nat" where
  "dir_room d = length (free (fst d))"

definition dir_add :: "bytes \<Rightarrow> u64 \<Rightarrow> directory \<Rightarrow> directory outcome" where
  "dir_add x no d = dir_add_entry x no (free_cache_entry_get (fst d)) (fst d) (snd d)"

definition dir_remove :: "bytes \<Rightarrow> directory \<Rightarrow> directory outcome" where
  "dir_remove x d = dir_remove_entry x (fst d) (snd d)"

lemma used_entry_search_find:
  "used_entry_search (used_entries b is) x =
     map_option (entry_at b) (find (\<lambda>i. is_used b i \<and> matches b i x) is)"
  by (induction "is") (simp_all add: matches_def)

lemma used_cache_entry_get_find:
  "cache_ok dc b \<Longrightarrow> used_cache_entry_get dc x =
     map_option (entry_at b) (find (\<lambda>i. is_used b i \<and> matches b i x) [0..<RECORDS_PER_BLOCK])"
  unfolding used_cache_entry_get_def cache_ok_def by (simp only: used_entry_search_find)

lemma used_cache_entry_get_None:
  "cache_ok dc b \<Longrightarrow>
   used_cache_entry_get dc x = None \<longleftrightarrow> (\<forall>i<RECORDS_PER_BLOCK. \<not> (is_used b i \<and> matches b i x))"
  by (auto simp: used_cache_entry_get_find find_None_iff)

lemma used_cache_entry_get_Some:
  assumes "cache_ok dc b" "names_unique b" "0 \<notin> set x"
  shows "used_cache_entry_get dc x = Some c \<longleftrightarrow>
    (\<exists>i<RECORDS_PER_BLOCK. c = entry_at b i \<and> is_used b i \<and> matches b i x)"
proof
  assume "used_cache_entry_get dc x = Some c"
  then show "\<exists>i<RECORDS_PER_BLOCK. c = entry_at b i \<and> is_used b i \<and> matches b i x"
    using assms(1) by (auto simp: used_cache_entry_get_find find_Some_iff)
next
  assume "\<exists>i<RECORDS_PER_BLOCK. c = entry_at b i \<and> is_used b i \<and> matches b i x"
  then obtain i where i: "i < RECORDS_PER_BLOCK" "c = entry_at b i" "is_used b i" "matches b i x"
    by blast
  then obtain d where d: "used_cache_entry_get dc x = Some d"
    using used_cache_entry_get_None [OF assms(1)] by fastforce
  then obtain j where "j < RECORDS_PER_BLOCK" "d = entry_at b j" "is_used b j" "matches b j x"
    using assms(1) by (auto simp: used_cache_entry_get_find find_Some_iff)
  then have "d = c" using i assms(2,3) unfolding names_unique_def by blast
  then show "used_cache_entry_get dc x = Some c" using d by simp
qed

lemma dir_lookup_None:
  "dir_inv d \<Longrightarrow> dir_lookup d x = None \<longleftrightarrow> (\<forall>i<RECORDS_PER_BLOCK. \<not> (is_used (snd d) i \<and> matches (snd d) i x))"
  using used_cache_entry_get_None [of "fst d" "snd d" x] by (simp add: dir_lookup_def dir_inv_def)

lemma dir_lookup_Some:
  "dir_inv d \<Longrightarrow> 0 \<notin> set x \<Longrightarrow> dir_lookup d x = Some no \<longleftrightarrow>
     (\<exists>i<RECORDS_PER_BLOCK. no = rec_inode_no (rd_record i (snd d)) \<and> is_used (snd d) i \<and> matches (snd d) i x)"
  using used_cache_entry_get_Some [of "fst d" "snd d" x]
  by (auto simp: dir_lookup_def dir_inv_def)

lemma dir_lookup_eqI:
  assumes "dir_inv d" "0 \<notin> set x"
    and "\<And>no. v = Some no \<longleftrightarrow> (\<exists>i<RECORDS_PER_BLOCK. no = rec_inode_no (rd_record i (snd d)) \<and>
           is_used (snd d) i \<and> matches (snd d) i x)"
  shows "dir_lookup d x = v"
proof -
  have "dir_lookup d x = Some no \<longleftrightarrow> v = Some no" for no
    using dir_lookup_Some [OF assms(1,2)] assms(3) by blast
  then show ?thesis by (cases v) (auto simp: not_None_eq [symmetric])
qed

lemma dir_room_pos: "cache_ok dc b \<Longrightarrow> free dc \<noteq> [] \<longleftrightarrow> (\<exists>i<RECORDS_PER_BLOCK. \<not> is_used b i)"
  unfolding cache_ok_def by (metis (mono_tags, lifting) empty_iff image_is_empty mem_Collect_eq set_empty subsetI subset_antisym)

text \<open>What a new record changes of the block.\<close>

lemma new_record_facts:
  assumes "name_ok x" "no \<noteq> 0" and b'_def: "b' = new_record k x no b"
  shows "is_used b' i \<longleftrightarrow> i = k \<or> is_used b i"
    and "0 \<notin> set y \<Longrightarrow> matches b' i y \<longleftrightarrow> (if i = k then y = x else matches b i y)"
    and "i \<noteq> k \<Longrightarrow> rd_record i b' = rd_record i b"
    and "rec_inode_no (rd_record k b') = no"
proof -
  have len: "length x \<le> 255" and nul: "0 \<notin> set x" using assms(1) by (simp_all add: name_ok_def)
  show other: "rd_record i b' = rd_record i b" if "i \<noteq> k" for i
    unfolding b'_def using that by (rule records.rd_other_slot [OF new_record_only_slot [OF len]])
  show no: "rec_inode_no (rd_record k b') = no"
    unfolding b'_def by (rule rd_new_record [OF len])
  show "is_used b' i \<longleftrightarrow> i = k \<or> is_used b i"
    using other [of i] no assms(2) by (cases "i = k") (simp_all add: is_used_def)
  obtain xs where "filename (rd_record k b') = cstr x @ xs"
    unfolding b'_def using rd_new_record [OF len] by blast
  then show "0 \<notin> set y \<Longrightarrow> matches b' i y \<longleftrightarrow> (if i = k then y = x else matches b i y)"
    using other [of i] nul strcmp_eq_cstr_cstr [of x y xs] by (auto simp: matches_def)
qed

lemma clr_record_facts:
  assumes b'_def: "b' = clr_record k b"
  shows "is_used b' i \<longleftrightarrow> i \<noteq> k \<and> is_used b i"
    and "i \<noteq> k \<Longrightarrow> rd_record i b' = rd_record i b"
proof -
  show "i \<noteq> k \<Longrightarrow> rd_record i b' = rd_record i b"
    by (simp add: b'_def records.rd_clr_iff)
  show "is_used b' i \<longleftrightarrow> i \<noteq> k \<and> is_used b i"
    by (auto simp: b'_def records.rd_clr_iff is_used_def)
qed

subsection \<open>The contract of a table of names\<close>

text \<open>
  What \<open>simplefs_create_fs_object\<close>, \<open>simplefs_unlink\<close> and \<open>simplefs_lookup\<close> rely on of a
  directory: a bounded map from names to inode numbers in which a new name is added while
  there is room, and a present name is removed.
\<close>

fun add_all :: "(bytes \<Rightarrow> u64 \<Rightarrow> 'd \<Rightarrow> 'd outcome) \<Rightarrow> (bytes \<times> u64) list \<Rightarrow> 'd \<Rightarrow> 'd outcome" where
  "add_all add [] d = Done d"
| "add_all add ((x, no) # ps) d = bnd (add x no d) (add_all add ps)"

locale name_table =
  fixes inv :: "'d \<Rightarrow> bool" and look :: "'d \<Rightarrow> bytes \<Rightarrow> u64 option" and room :: "'d \<Rightarrow> nat"
    and add :: "bytes \<Rightarrow> u64 \<Rightarrow> 'd \<Rightarrow> 'd outcome" and rem :: "bytes \<Rightarrow> 'd \<Rightarrow> 'd outcome"
  assumes add_new: "\<lbrakk>inv d; name_ok x; no \<noteq> 0; look d x = None; 0 < room d\<rbrakk> \<Longrightarrow>
      \<exists>d'. add x no d = Done d' \<and> inv d' \<and> Suc (room d') = room d \<and>
        (\<forall>y. name_ok y \<longrightarrow> look d' y = (if y = x then Some no else look d y))"
    and add_full: "\<lbrakk>inv d; room d = 0\<rbrakk> \<Longrightarrow> add x no d = Fault Out_of_bounds"
    and rem_present: "\<lbrakk>inv d; name_ok x; look d x = Some no\<rbrakk> \<Longrightarrow>
      \<exists>d'. rem x d = Done d' \<and> inv d' \<and> room d' = Suc (room d) \<and>
        (\<forall>y. name_ok y \<longrightarrow> look d' y = (if y = x then None else look d y))"
    and rem_absent: "\<lbrakk>inv d; look d x = None\<rbrakk> \<Longrightarrow> rem x d = Fault Null_deref"
begin

lemma add_rem:
  assumes "inv d" "name_ok x" "no \<noteq> 0" "look d x = None" "0 < room d"
  shows "\<exists>d'. bnd (add x no d) (rem x) = Done d' \<and> inv d' \<and> room d' = room d \<and>
    (\<forall>y. name_ok y \<longrightarrow> look d' y = look d y)"
proof -
  obtain d1 where d1: "add x no d = Done d1" "inv d1" "Suc (room d1) = room d"
    "\<forall>y. name_ok y \<longrightarrow> look d1 y = (if y = x then Some no else look d y)"
    using add_new [OF assms] by blast
  then have "look d1 x = Some no" using assms(2) by simp
  then show ?thesis
    using rem_present [OF d1(2) assms(2)] d1 assms(4) by fastforce
qed

lemma add_all_new:
  assumes "inv d" "distinct (map fst ps)" "length ps \<le> room d"
    and "\<And>x no. (x, no) \<in> set ps \<Longrightarrow> name_ok x \<and> no \<noteq> 0 \<and> look d x = None"
  shows "\<exists>d'. add_all add ps d = Done d' \<and> inv d' \<and> room d' + length ps = room d \<and>
    (\<forall>y. name_ok y \<longrightarrow> look d' y = (case map_of ps y of None \<Rightarrow> look d y | Some no \<Rightarrow> Some no))"
  using assms
proof (induction ps arbitrary: d)
  case Nil
  then show ?case by simp
next
  case (Cons p ps)
  obtain x no where p: "p = (x, no)" by (cases p)
  have x: "name_ok x" "no \<noteq> 0" "look d x = None" using Cons.prems(4) p by auto
  obtain d1 where d1: "add x no d = Done d1" "inv d1" "Suc (room d1) = room d"
    "\<forall>y. name_ok y \<longrightarrow> look d1 y = (if y = x then Some no else look d y)"
    using add_new [OF Cons.prems(1) x] Cons.prems(3) by auto
  have "\<And>y m. (y, m) \<in> set ps \<Longrightarrow> name_ok y \<and> m \<noteq> 0 \<and> look d1 y = None"
    using Cons.prems(2,4) d1(4) p by (fastforce simp: image_iff)
  then obtain d' where d': "add_all add ps d1 = Done d'" "inv d'" "room d' + length ps = room d1"
    "\<forall>y. name_ok y \<longrightarrow> look d' y = (case map_of ps y of None \<Rightarrow> look d1 y | Some no \<Rightarrow> Some no)"
    using Cons.IH [OF d1(2)] Cons.prems(2,3) d1(3) p by auto
  have "map_of ps x = None" using Cons.prems(2) p by (simp add: map_of_eq_None_iff)
  then show ?case using d1 d' p by (auto split: option.splits)
qed

end

lemma dir_add_new:
  assumes "dir_inv d" "name_ok x" "no \<noteq> 0" "dir_lookup d x = None" "0 < dir_room d"
  shows "\<exists>d'. dir_add x no d = Done d' \<and> dir_inv d' \<and> Suc (dir_room d') = dir_room d \<and>
    (\<forall>y. name_ok y \<longrightarrow> dir_lookup d' y = (if y = x then Some no else dir_lookup d y))"
proof -
  obtain dc b where d: "d = (dc, b)" by (cases d)
  have ok: "cache_ok dc b" "names_unique b" using assms(1) d by (simp_all add: dir_inv_def)
  obtain c cs where free: "free dc = c # cs"
    using assms(5) d by (cases "free dc") (simp_all add: dir_room_def)
  have k: "entry_no c < RECORDS_PER_BLOCK" "\<not> is_used b (entry_no c)"
    using ok(1) free unfolding cache_ok_def by (metis (mono_tags, lifting) imageI list.set_intros(1) mem_Collect_eq)+
  let ?b = "new_record (entry_no c) x no b"
  let ?c = "c\<lparr>record_of := rd_record (entry_no c) ?b\<rparr>"
  let ?d = "(cache_entry_insert ?c dc, ?b)"
  note facts = new_record_facts [OF assms(2,3) refl, where k = "entry_no c" and b = b]
  have add: "dir_add x no d = Done ?d"
    using k assms(2) d free
    by (simp add: dir_add_def dir_add_entry_def free_cache_entry_get_def name_ok_def cstr_def Let_def)
  have cache: "cache_ok (cache_entry_insert ?c dc) ?b"
    using free facts by (intro cache_ok_insert [OF ok(1)]) simp_all
  have absent: "\<And>i. i < RECORDS_PER_BLOCK \<Longrightarrow> is_used b i \<Longrightarrow> \<not> matches b i x"
    using assms(1,4) d by (auto simp: dir_lookup_None)
  have "names_unique ?b"
    unfolding names_unique_def
    using ok(2) absent facts(1,2) unfolding names_unique_def by (metis (full_types))
  then have inv: "dir_inv ?d" using cache by (simp add: dir_inv_def)
  have "dir_lookup ?d y = (if y = x then Some no else dir_lookup d y)" if "name_ok y" for y
  proof (rule dir_lookup_eqI [OF inv])
    have nul: "0 \<notin> set y" using that by (simp add: name_ok_def)
    then show "0 \<notin> set y" .
    show "(if y = x then Some no else dir_lookup d y) = Some m \<longleftrightarrow>
        (\<exists>i<RECORDS_PER_BLOCK. m = rec_inode_no (rd_record i (snd ?d)) \<and> is_used (snd ?d) i \<and> matches (snd ?d) i y)"
      for m
      using dir_lookup_Some [OF assms(1) nul] d k facts nul absent by (auto split: if_splits; metis)
  qed
  moreover have "list_del_entry ?c (free dc) = cs"
    using ok(1) free list_del_entry_idem [of ?c cs]
    by (simp add: cache_ok_def) (simp add: list_del_entry_def)
  ultimately show ?thesis
    using add inv d free by (simp add: dir_room_def cache_entry_insert_def)
qed

lemma dir_add_full: "dir_room d = 0 \<Longrightarrow> dir_add x no d = Fault Out_of_bounds"
  by (simp add: dir_room_def dir_add_def free_cache_entry_get_def dir_add_entry_def)

lemma dir_remove_present:
  assumes "dir_inv d" "name_ok x" "dir_lookup d x = Some no"
  shows "\<exists>d'. dir_remove x d = Done d' \<and> dir_inv d' \<and> dir_room d' = Suc (dir_room d) \<and>
    (\<forall>y. name_ok y \<longrightarrow> dir_lookup d' y = (if y = x then None else dir_lookup d y))"
proof -
  obtain dc b where d: "d = (dc, b)" by (cases d)
  have ok: "cache_ok dc b" "names_unique b" using assms(1) d by (simp_all add: dir_inv_def)
  have nul: "0 \<notin> set x" using assms(2) by (simp add: name_ok_def)
  obtain c where c: "used_cache_entry_get dc x = Some c"
    using assms(3) d by (auto simp: dir_lookup_def)
  then obtain k where k: "k < RECORDS_PER_BLOCK" "c = entry_at b k" "is_used b k" "matches b k x"
    using used_cache_entry_get_Some [OF ok nul] by blast
  let ?b = "clr_record k b"
  let ?d = "(cache_entry_release c dc, ?b)"
  note facts = clr_record_facts [OF refl, where k = k and b = b]
  have rem: "dir_remove x d = Done ?d"
    using c k d by (simp add: dir_remove_def dir_remove_entry_def)
  have "c \<in> set (used dc)" using ok(1) k by (simp add: cache_ok_def set_used_entries)
  then have cache: "cache_ok (cache_entry_release c dc) ?b"
    using k facts by (intro cache_ok_release [OF ok(1)]) simp_all
  have matches': "i \<noteq> k \<Longrightarrow> matches ?b i y = matches b i y" for i y
    using facts(2) by (simp add: matches_def)
  have "names_unique ?b"
    using ok(2) facts(1) matches' unfolding names_unique_def by (metis (full_types))
  then have inv: "dir_inv ?d" using cache by (simp add: dir_inv_def)
  have "dir_lookup ?d y = (if y = x then None else dir_lookup d y)" if "name_ok y" for y
  proof (rule dir_lookup_eqI [OF inv])
    have nul': "0 \<notin> set y" using that by (simp add: name_ok_def)
    then show "0 \<notin> set y" .
    have only: "i = k" if "i < RECORDS_PER_BLOCK" "is_used b i" "matches b i x" for i
      using ok(2) k nul that unfolding names_unique_def by blast
    have same: "y = x" if "matches b k y"
      using k(4) nul nul' that strcmp_eq_unique unfolding matches_def by blast
    fix m
    have "(\<exists>i<RECORDS_PER_BLOCK. m = rec_inode_no (rd_record i (snd ?d)) \<and> is_used (snd ?d) i \<and> matches (snd ?d) i y)
        \<longleftrightarrow> (\<exists>i<RECORDS_PER_BLOCK. i \<noteq> k \<and> m = rec_inode_no (rd_record i b) \<and> is_used b i \<and> matches b i y)"
      using facts matches' by auto
    also have "\<dots> \<longleftrightarrow> y \<noteq> x \<and> (\<exists>i<RECORDS_PER_BLOCK. m = rec_inode_no (rd_record i b) \<and> is_used b i \<and> matches b i y)"
      using only same by blast
    also have "\<dots> \<longleftrightarrow> (if y = x then None else dir_lookup d y) = Some m"
      using dir_lookup_Some [OF assms(1) nul'] d by simp
    finally show "(if y = x then None else dir_lookup d y) = Some m \<longleftrightarrow>
        (\<exists>i<RECORDS_PER_BLOCK. m = rec_inode_no (rd_record i (snd ?d)) \<and> is_used (snd ?d) i \<and> matches (snd ?d) i y)"
      by simp
  qed
  moreover have "length (free (cache_entry_release c dc)) = Suc (length (free dc))"
    using ok(1) k list_del_entry_idem [of c "free dc"] by (simp add: cache_ok_def cache_entry_release_def)
  ultimately show ?thesis
    using rem inv d by (simp add: dir_room_def)
qed

lemma dir_remove_absent: "dir_lookup d x = None \<Longrightarrow> dir_remove x d = Fault Null_deref"
  by (simp add: dir_lookup_def dir_remove_def dir_remove_entry_def)

interpretation dir: name_table dir_inv dir_lookup dir_room dir_add dir_remove
  by unfold_locales (use dir_add_new dir_add_full dir_remove_present dir_remove_absent in blast)+

section \<open>Properties\<close>

text \<open>A directory with all records unused, and its cache.\<close>

definition empty_directory :: directory where
  "empty_directory =
     (\<lparr>cached_children_count = 0, used = [],
       free = map (\<lambda>i. \<lparr>record_of = zero_record, entry_no = i\<rparr>) [0..<RECORDS_PER_BLOCK]\<rparr>, \<lambda>_. 0)"

lemma is_used_zero [simp]: "\<not> is_used (\<lambda>_. 0) i"
proof -
  have "blk_read off n (\<lambda>_. 0) = replicate n 0" for off n
    by (simp add: list_eq_iff_nth_eq)
  then show ?thesis by (simp add: is_used_def rd_record_def get_u64_def)
qed

lemma empty_directory_inv: "dir_inv empty_directory" "dir_room empty_directory = RECORDS_PER_BLOCK"
  "dir_lookup empty_directory x = None"
proof -
  have used: "used_entries (\<lambda>_. 0) is = []" for "is"
    by (induction "is") simp_all
  have "entry_no ` set (free (fst empty_directory)) = {i. i < RECORDS_PER_BLOCK}"
    by (simp add: empty_directory_def image_image) auto
  then show "dir_inv empty_directory"
    by (simp add: dir_inv_def cache_ok_def names_unique_def used empty_directory_def comp_def del: upt_rec_numeral)
  show "dir_room empty_directory = RECORDS_PER_BLOCK"
    by (simp add: dir_room_def empty_directory_def)
  show "dir_lookup empty_directory x = None"
    by (simp add: dir_lookup_def used_cache_entry_get_def empty_directory_def)
qed

lemma name_a: "name_ok [97]"
  by (simp add: name_ok_def)

text \<open>When no allocation fails, \<open>dir_cache_build\<close> on the empty cache that
  \<open>simplefs_cache_alloc\<close> returns finishes with 0 and a cache that agrees with the block: its list \<open>used\<close>
  is the list of the records in use in the order of the block, with the contents of the block, and \<open>free\<close>
  has exactly one entry for every other record.\<close>

theorem dir_cache_build_coherent:
  assumes "calm e" "simplefs_cache_alloc e s = (Inr dc, s')"
  shows "\<exists>dc' s''. dir_cache_build e dc b s' = (0, dc', s'') \<and> cache_ok dc' b"
proof -
  have "dc = \<lparr>cached_children_count = 0, used = [], free = []\<rparr>"
    using assms by (simp add: simplefs_cache_alloc_def calm_simps)
  then show ?thesis using dir_cache_build_calm [OF assms(1)] by blast
qed

definition idle_kstate :: kstate where
  "idle_kstate = \<lparr>cache = (\<lambda>_ _. 0), disk = (\<lambda>_ _. 0), dirty = (\<lambda>_. False), refs = (\<lambda>_. 0),
     held = (\<lambda>_. False), tick = 0\<rparr>"

theorem dir_cache_build_coherent_witness:
  "\<exists>dc s' dc' s''. simplefs_cache_alloc quiet_env idle_kstate = (Inr dc, s') \<and>
     dir_cache_build quiet_env dc (new_record 3 [97] 7 (\<lambda>_. 0)) s' = (0, dc', s'') \<and>
     cache_ok dc' (new_record 3 [97] 7 (\<lambda>_. 0))"
proof -
  obtain dc s' where "simplefs_cache_alloc quiet_env idle_kstate = (Inr dc, s')"
    by (simp add: simplefs_cache_alloc_def calm_simps)
  then show ?thesis using dir_cache_build_coherent [OF calm_quiet_env(1)] by blast
qed

text \<open>C6: the steps of \<open>simplefs_create_fs_object\<close> on the parent directory implement the insertion into
  a map.  On a coherent cache with a free entry, for a name that is not in the directory, they finish
  without a fault, keep the cache coherent with the block and the names unique, take one entry from
  \<open>free\<close>, and afterwards \<open>used_cache_entry_get\<close> finds the new inode number under the new name and what it found
  before under every other name.\<close>

theorem dir_add_entry_refines_map:
  assumes "cache_ok dc b" "names_unique b" "name_ok x" "no \<noteq> 0"
    and "dir_lookup (dc, b) x = None" "free dc \<noteq> []"
  shows "\<exists>dc' b'. dir_add_entry x no (free_cache_entry_get dc) dc b = Done (dc', b') \<and>
    cache_ok dc' b' \<and> names_unique b' \<and> Suc (length (free dc')) = length (free dc) \<and>
    (\<forall>y. name_ok y \<longrightarrow> dir_lookup (dc', b') y = (if y = x then Some no else dir_lookup (dc, b) y))"
  using dir.add_new [of "(dc, b)" x no] assms
  by (auto simp: dir_inv_def dir_room_def dir_add_def)

theorem dir_add_entry_refines_map_witness:
  "\<exists>dc' b'. dir_add_entry [97] 5 (free_cache_entry_get (fst empty_directory))
      (fst empty_directory) (snd empty_directory) = Done (dc', b') \<and> dir_lookup (dc', b') [97] = Some 5"
proof -
  have "\<exists>dc' b'. dir_add_entry [97] 5 (free_cache_entry_get (fst empty_directory))
      (fst empty_directory) (snd empty_directory) = Done (dc', b') \<and>
      cache_ok dc' b' \<and> names_unique b' \<and> Suc (length (free dc')) = length (free (fst empty_directory)) \<and>
      (\<forall>y. name_ok y \<longrightarrow> dir_lookup (dc', b') y =
        (if y = [97] then Some 5 else dir_lookup (fst empty_directory, snd empty_directory) y))"
    using empty_directory_inv name_a
    by (intro dir_add_entry_refines_map) (auto simp: dir_inv_def dir_room_def)
  then show ?thesis using name_a by auto
qed

text \<open>C7: the steps of \<open>simplefs_unlink\<close> on the parent directory implement the deletion from a map.  For a
  name that is in the directory they finish without a fault, keep cache and block coherent and the
  names unique, give one entry back to \<open>free\<close>, and afterwards exactly that name is gone.\<close>

theorem dir_remove_entry_refines_map:
  assumes "cache_ok dc b" "names_unique b" "name_ok x" "dir_lookup (dc, b) x = Some no"
  shows "\<exists>dc' b'. dir_remove_entry x dc b = Done (dc', b') \<and>
    cache_ok dc' b' \<and> names_unique b' \<and> length (free dc') = Suc (length (free dc)) \<and>
    (\<forall>y. name_ok y \<longrightarrow> dir_lookup (dc', b') y = (if y = x then None else dir_lookup (dc, b) y))"
  using dir.rem_present [of "(dc, b)" x no] assms
  by (auto simp: dir_inv_def dir_room_def dir_remove_def)

theorem dir_remove_entry_refines_map_witness:
  "\<exists>dc b dc' b'. dir_add [97] 5 empty_directory = Done (dc, b) \<and>
     dir_remove_entry [97] dc b = Done (dc', b') \<and> dir_lookup (dc', b') [97] = None"
proof -
  obtain dc b where add: "dir_add [97] 5 empty_directory = Done (dc, b)"
    and inv: "cache_ok dc b" "names_unique b" and look: "dir_lookup (dc, b) [97] = Some 5"
    using dir_add_new [OF empty_directory_inv(1) name_a, of 5] empty_directory_inv name_a
    by (auto simp: dir_inv_def)
  show ?thesis using add name_a dir_remove_entry_refines_map [OF inv name_a look] by auto
qed

text \<open>C21: a directory block holds 15 entries and the code has no check for a full directory.  Adding as
  many different new names as there are free entries succeeds, every one of them is then found, and the
  next creation, whatever its name, uses \<open>list_first_entry\<close> of the empty free list and accesses memory
  outside every entry object.\<close>

theorem directory_capacity:
  assumes "dir_inv d" "distinct (map fst ps)" "length ps = dir_room d"
    and "\<And>x no. (x, no) \<in> set ps \<Longrightarrow> name_ok x \<and> no \<noteq> 0 \<and> dir_lookup d x = None"
  shows "\<exists>dc' b'. add_all dir_add ps d = Done (dc', b') \<and>
    (\<forall>x no. (x, no) \<in> set ps \<longrightarrow> dir_lookup (dc', b') x = Some no) \<and>
    (\<forall>x no. dir_add_entry x no (free_cache_entry_get dc') dc' b' = Fault Out_of_bounds)"
proof -
  obtain dc' b' where d': "add_all dir_add ps d = Done (dc', b')" "dir_room (dc', b') = 0"
    and look: "\<forall>y. name_ok y \<longrightarrow> dir_lookup (dc', b') y =
      (case map_of ps y of None \<Rightarrow> dir_lookup d y | Some no \<Rightarrow> Some no)"
    using dir.add_all_new [of d ps] assms by (auto simp: Nat.le_eq_less_or_eq)
  have "dir_lookup (dc', b') x = Some no" if "(x, no) \<in> set ps" for x no
    using look assms(2,4) that by (simp add: map_of_is_SomeI)
  moreover have "dir_add_entry x no (free_cache_entry_get dc') dc' b' = Fault Out_of_bounds" for x no
    using dir_add_full [OF d'(2)] by (simp add: dir_add_def)
  ultimately show ?thesis using d'(1) by blast
qed

theorem directory_capacity_witness:
  "\<exists>dc' b'. add_all dir_add (map (\<lambda>i. ([of_nat (Suc i)], 5)) [0..<15]) empty_directory = Done (dc', b') \<and>
     dir_add_entry [97] 6 (free_cache_entry_get dc') dc' b' = Fault Out_of_bounds"
proof -
  let ?ps = "map (\<lambda>i. ([of_nat (Suc i) :: u8], 5 :: u64)) [0..<15]"
  have "distinct (map fst ?ps)" by code_simp
  moreover have "list_all (\<lambda>(x, no). name_ok x \<and> no \<noteq> 0) ?ps" by code_simp
  then have "\<And>x no. (x, no) \<in> set ?ps \<Longrightarrow> name_ok x \<and> no \<noteq> 0 \<and> dir_lookup empty_directory x = None"
    using empty_directory_inv(3) unfolding list_all_iff by blast
  ultimately show ?thesis
    using directory_capacity [OF empty_directory_inv(1), of ?ps] empty_directory_inv(2)
    by (simp del: upt_rec_numeral) blast
qed

end
