(* ===== verification/Sfs_Inode_Store.thy ===== *)
theory Sfs_Inode_Store
  imports Sfs_Kernel
begin

text \<open>
  The super block and the inode store of \<open>simplefs/simple.c\<close>: \<open>simplefs_sb_sync\<close>, the search, add,
  delete, get and save of an inode, the allocation of a data block and the count of objects (lines 165
  to 382, 452 to 495 and 544 to 581).  The state adds to the kernel's the in-core super block,
  \<open>sb_info->sb\<close>, and the in-core inode bitmap, \<open>sb_info->imap\<close>; block 1 of the buffer cache is the
  inode store.  The invariant \<open>store_inv\<close> ties bitmap, inode store, object count and free-block
  map together, and every operation is shown to keep it.
\<close>

section \<open>State\<close>

record sbstate = kstate +
  sb_mem :: simplefs_super_block
  imap :: u64

section \<open>Operations\<close>

text \<open>\<open>simplefs_sb_sync\<close>: block 0 is given the in-core super block as its data and is written out.\<close>

definition simplefs_sb_sync :: "kenv \<Rightarrow> 'a sbstate_scheme \<Rightarrow> 'a sbstate_scheme outcome" where
  "simplefs_sb_sync e s =
     (let (ok, s) = sb_bread e SIMPLEFS_SUPERBLOCK_BLOCK_NUMBER s in
      bnd (guard ok Bug_on) (\<lambda>_.
      let s = set_data SIMPLEFS_SUPERBLOCK_BLOCK_NUMBER
                (wr_super (sb_mem s) (cache s SIMPLEFS_SUPERBLOCK_BLOCK_NUMBER)) s;
          s = mark_buffer_dirty SIMPLEFS_SUPERBLOCK_BLOCK_NUMBER s;
          s = sync_dirty_buffer SIMPLEFS_SUPERBLOCK_BLOCK_NUMBER s
      in Done (brelse SIMPLEFS_SUPERBLOCK_BLOCK_NUMBER s)))"

text \<open>
  \<open>simplefs_inode_search\<close>: the pointer \<open>start\<close> is the index \<open>count\<close> into the block.  The loop
  condition reads \<open>start->inode_no\<close> before it compares \<open>count\<close> with the bound, and the test after
  the loop reads it again.
\<close>

function simplefs_inode_search :: "blk \<Rightarrow> u64 \<Rightarrow> nat \<Rightarrow> nat option outcome" where
  "simplefs_inode_search b no count =
     bnd (guard (SIZEOF_INODE * count + SIZEOF_INODE \<le> BLOCK_SIZE) Out_of_bounds) (\<lambda>_.
     if inode_no (rd_inode count b) \<noteq> no \<and> count < INODES_PER_BLOCK
     then simplefs_inode_search b no (Suc count)
     else if inode_no (rd_inode count b) = no then Done (Some count) else Done None)"
  by pat_completeness auto
termination
  by (relation "measure (\<lambda>(b, no, count). INODES_PER_BLOCK - count)") auto

declare simplefs_inode_search.simps [simp del]

text \<open>\<open>simplefs_inode_add\<close>; it has no result, so an interrupted lock returns silently.\<close>

definition simplefs_inode_add :: "kenv \<Rightarrow> simplefs_inode \<Rightarrow> 'a sbstate_scheme \<Rightarrow> 'a sbstate_scheme outcome" where
  "simplefs_inode_add e nd s =
     bnd (mutex_lock_interruptible e simplefs_inodes_mgmt_lock s) (\<lambda>(interrupted, s).
     if interrupted then Done s else
     let (ok, s) = sb_bread e SIMPLEFS_INODESTORE_BLOCK_NUMBER s in
     bnd (guard ok Bug_on) (\<lambda>_.
     bnd (mutex_lock_interruptible e simplefs_sb_lock s) (\<lambda>(interrupted, s).
     if interrupted then Done s else
     let k = unat (inode_no nd - 1) in
     bnd (guard (k < INODES_PER_BLOCK) Out_of_bounds) (\<lambda>_.
     let s = set_data SIMPLEFS_INODESTORE_BLOCK_NUMBER
               (wr_inode k nd (cache s SIMPLEFS_INODESTORE_BLOCK_NUMBER)) s;
         s = s\<lparr>sb_mem := (sb_mem s)\<lparr>inodes_count := inodes_count (sb_mem s) + 1\<rparr>\<rparr> in
     bnd (set_bit_ul (inode_no nd) (imap s)) (\<lambda>m.
     let s = s\<lparr>imap := m\<rparr>;
         s = mark_buffer_dirty SIMPLEFS_INODESTORE_BLOCK_NUMBER s in
     bnd (simplefs_sb_sync e s) (\<lambda>s.
     let s = brelse SIMPLEFS_INODESTORE_BLOCK_NUMBER s in
     bnd (mutex_unlock simplefs_sb_lock s) (\<lambda>s.
     mutex_unlock simplefs_inodes_mgmt_lock s)))))))"

definition simplefs_inode_del :: "kenv \<Rightarrow> simplefs_inode \<Rightarrow> 'a sbstate_scheme \<Rightarrow> 'a sbstate_scheme outcome" where
  "simplefs_inode_del e nd s =
     bnd (mutex_lock_interruptible e simplefs_inodes_mgmt_lock s) (\<lambda>(interrupted, s).
     if interrupted then Done s else
     let (ok, s) = sb_bread e SIMPLEFS_INODESTORE_BLOCK_NUMBER s in
     bnd (guard ok Bug_on) (\<lambda>_.
     bnd (mutex_lock_interruptible e simplefs_sb_lock s) (\<lambda>(interrupted, s).
     if interrupted then Done s else
     let k = unat (inode_no nd - 1) in
     bnd (guard (k < INODES_PER_BLOCK) Out_of_bounds) (\<lambda>_.
     let s = set_data SIMPLEFS_INODESTORE_BLOCK_NUMBER
               (clr_inode k (cache s SIMPLEFS_INODESTORE_BLOCK_NUMBER)) s;
         s = s\<lparr>sb_mem := (sb_mem s)\<lparr>inodes_count := inodes_count (sb_mem s) - 1\<rparr>\<rparr> in
     bnd (clear_bit_ul (inode_no nd) (imap s)) (\<lambda>m.
     let s = s\<lparr>imap := m\<rparr>;
         s = mark_buffer_dirty SIMPLEFS_INODESTORE_BLOCK_NUMBER s in
     bnd (simplefs_sb_sync e s) (\<lambda>s.
     let s = brelse SIMPLEFS_INODESTORE_BLOCK_NUMBER s in
     bnd (mutex_unlock simplefs_sb_lock s) (\<lambda>s.
     mutex_unlock simplefs_inodes_mgmt_lock s)))))))"

text \<open>The loop of \<open>simplefs_sb_get_a_freeblock\<close>: the first \<open>i\<close> from its start whose bit is set, or the bound.\<close>

function find_free_block :: "u64 \<Rightarrow> nat \<Rightarrow> nat outcome" where
  "find_free_block fb i =
     (if i < SIMPLEFS_MAX_FILESYSTEM_OBJECTS_SUPPORTED
      then bnd (shl_int i) (\<lambda>m.
           if fb AND int_to_u64 m \<noteq> 0 then Done i else find_free_block fb (Suc i))
      else Done i)"
  by pat_completeness auto
termination
  by (relation "measure (\<lambda>(fb, i). SIMPLEFS_MAX_FILESYSTEM_OBJECTS_SUPPORTED - i)") auto

declare find_free_block.simps [simp del]

text \<open>
  \<open>simplefs_sb_get_a_freeblock\<close> returns its code and the value stored through \<open>out\<close>, if any.  All
  its exits go through the label \<open>end\<close>, which releases the lock.
\<close>

definition simplefs_sb_get_a_freeblock ::
    "kenv \<Rightarrow> 'a sbstate_scheme \<Rightarrow> ((int \<times> u64 option) \<times> 'a sbstate_scheme) outcome" where
  "simplefs_sb_get_a_freeblock e s =
     bnd (mutex_lock_interruptible e simplefs_sb_lock s) (\<lambda>(interrupted, s).
     if interrupted
     then bnd (mutex_unlock simplefs_sb_lock s) (\<lambda>s. Done ((- EINTR, None), s))
     else
     bnd (find_free_block (free_blocks (sb_mem s)) 3) (\<lambda>i.
     if i = SIMPLEFS_MAX_FILESYSTEM_OBJECTS_SUPPORTED
     then bnd (mutex_unlock simplefs_sb_lock s) (\<lambda>s. Done ((- ENOSPC, None), s))
     else
     bnd (shl_int i) (\<lambda>m.
     let s = s\<lparr>sb_mem := (sb_mem s)\<lparr>free_blocks := free_blocks (sb_mem s) AND int_to_u64 (NOT m)\<rparr>\<rparr> in
     bnd (simplefs_sb_sync e s) (\<lambda>s.
     bnd (mutex_unlock simplefs_sb_lock s) (\<lambda>s. Done ((0, Some (of_nat i)), s))))))"

definition simplefs_sb_get_objects_count ::
    "kenv \<Rightarrow> 'a sbstate_scheme \<Rightarrow> ((int \<times> u64 option) \<times> 'a sbstate_scheme) outcome" where
  "simplefs_sb_get_objects_count e s =
     bnd (mutex_lock_interruptible e simplefs_inodes_mgmt_lock s) (\<lambda>(interrupted, s).
     if interrupted then Done ((- EINTR, None), s) else
     let out = inodes_count (sb_mem s) in
     bnd (mutex_unlock simplefs_inodes_mgmt_lock s) (\<lambda>s. Done ((0, Some out), s)))"

text \<open>\<open>simplefs_get_inode\<close>: a copy of the structure in slot \<open>inode_no - 1\<close>; \<open>None\<close> is NULL.\<close>

definition simplefs_get_inode ::
    "kenv \<Rightarrow> u64 \<Rightarrow> 'a sbstate_scheme \<Rightarrow> (simplefs_inode option \<times> 'a sbstate_scheme) outcome" where
  "simplefs_get_inode e no s =
     (let (ok, s) = sb_bread e SIMPLEFS_INODESTORE_BLOCK_NUMBER s in
      bnd (guard ok Bug_on) (\<lambda>_.
      bnd (mutex_lock_interruptible e simplefs_inodes_mgmt_lock s) (\<lambda>(interrupted, s).
      if interrupted then Done (None, s) else
      let (ok, s) = alloc e s; k = unat (no - 1) in
      bnd (guard ok Null_deref) (\<lambda>_.
      bnd (guard (k < INODES_PER_BLOCK) Out_of_bounds) (\<lambda>_.
      let nd = rd_inode k (cache s SIMPLEFS_INODESTORE_BLOCK_NUMBER) in
      bnd (mutex_unlock simplefs_inodes_mgmt_lock s) (\<lambda>s.
      Done (Some nd, brelse SIMPLEFS_INODESTORE_BLOCK_NUMBER s)))))))"

text \<open>\<open>simplefs_inode_save\<close>; the caller holds \<open>simplefs_inodes_mgmt_lock\<close> or not.\<close>

definition simplefs_inode_save ::
    "kenv \<Rightarrow> simplefs_inode \<Rightarrow> 'a sbstate_scheme \<Rightarrow> (int \<times> 'a sbstate_scheme) outcome" where
  "simplefs_inode_save e nd s =
     (let (ok, s) = sb_bread e SIMPLEFS_INODESTORE_BLOCK_NUMBER s in
      bnd (guard ok Bug_on) (\<lambda>_.
      bnd (mutex_lock_interruptible e simplefs_sb_lock s) (\<lambda>(interrupted, s).
      if interrupted then Done (- EINTR, s) else
      bnd (simplefs_inode_search (cache s SIMPLEFS_INODESTORE_BLOCK_NUMBER) (inode_no nd) 0) (\<lambda>found.
      case found of
        Some k \<Rightarrow>
          let s = set_data SIMPLEFS_INODESTORE_BLOCK_NUMBER
                    (wr_inode k nd (cache s SIMPLEFS_INODESTORE_BLOCK_NUMBER)) s;
              s = mark_buffer_dirty SIMPLEFS_INODESTORE_BLOCK_NUMBER s;
              s = sync_dirty_buffer SIMPLEFS_INODESTORE_BLOCK_NUMBER s;
              s = brelse SIMPLEFS_INODESTORE_BLOCK_NUMBER s in
          bnd (mutex_unlock simplefs_sb_lock s) (\<lambda>s. Done (0, s))
      | None \<Rightarrow> bnd (mutex_unlock simplefs_sb_lock s) (\<lambda>s. Done (- EIO, s))))))"

section \<open>Undisturbed execution\<close>

text \<open>The effect of each operation when no signal arrives and nothing fails.\<close>

lemma sb_sync_calm [calm_simps]:
  "calm e \<Longrightarrow> simplefs_sb_sync e s =
     Done (s\<lparr>cache := (cache s)(0 := wr_super (sb_mem s) (cache s 0)),
             disk := (disk s)(0 := wr_super (sb_mem s) (cache s 0)),
             dirty := (dirty s)(0 := False), tick := Suc (tick s)\<rparr>)"
  by (simp add: simplefs_sb_sync_def calm_simps buffer_defs)

lemma inode_add_calm [calm_simps]:
  assumes "calm e" "\<not> held s simplefs_inodes_mgmt_lock" "\<not> held s simplefs_sb_lock"
    and "unat (inode_no nd - 1) < INODES_PER_BLOCK" "unat (inode_no nd) < 64"
  shows "simplefs_inode_add e nd s =
     (let sb = (sb_mem s)\<lparr>inodes_count := inodes_count (sb_mem s) + 1\<rparr> in
      Done (s\<lparr>cache := (cache s)(1 := wr_inode (unat (inode_no nd - 1)) nd (cache s 1),
                                 0 := wr_super sb (cache s 0)),
              disk := (disk s)(0 := wr_super sb (cache s 0)),
              dirty := (dirty s)(1 := True, 0 := False), tick := tick s + 4,
              sb_mem := sb, imap := imap s OR push_bit (unat (inode_no nd)) 1\<rparr>))"
  using assms by (simp add: simplefs_inode_add_def calm_simps buffer_defs set_bit_ul_def Let_def)

lemma inode_del_calm [calm_simps]:
  assumes "calm e" "\<not> held s simplefs_inodes_mgmt_lock" "\<not> held s simplefs_sb_lock"
    and "unat (inode_no nd - 1) < INODES_PER_BLOCK" "unat (inode_no nd) < 64"
  shows "simplefs_inode_del e nd s =
     (let sb = (sb_mem s)\<lparr>inodes_count := inodes_count (sb_mem s) - 1\<rparr> in
      Done (s\<lparr>cache := (cache s)(1 := clr_inode (unat (inode_no nd - 1)) (cache s 1),
                                 0 := wr_super sb (cache s 0)),
              disk := (disk s)(0 := wr_super sb (cache s 0)),
              dirty := (dirty s)(1 := True, 0 := False), tick := tick s + 4,
              sb_mem := sb, imap := imap s AND NOT (push_bit (unat (inode_no nd)) 1)\<rparr>))"
  using assms by (simp add: simplefs_inode_del_def calm_simps buffer_defs clear_bit_ul_def Let_def)

lemma objects_count_calm [calm_simps]:
  assumes "calm e" "\<not> held s simplefs_inodes_mgmt_lock"
  shows "simplefs_sb_get_objects_count e s =
     Done ((0, Some (inodes_count (sb_mem s))), s\<lparr>tick := Suc (tick s)\<rparr>)"
  using assms by (simp add: simplefs_sb_get_objects_count_def calm_simps)

lemma get_inode_calm [calm_simps]:
  assumes "calm e" "\<not> held s simplefs_inodes_mgmt_lock" "unat (no - 1) < INODES_PER_BLOCK"
  shows "simplefs_get_inode e no s =
     Done (Some (rd_inode (unat (no - 1)) (cache s 1)), s\<lparr>tick := tick s + 3\<rparr>)"
  using assms by (simp add: simplefs_get_inode_def calm_simps buffer_defs Let_def)

lemma inode_save_calm [calm_simps]:
  assumes "calm e" "\<not> held s simplefs_sb_lock"
    and "simplefs_inode_search (cache s 1) (inode_no nd) 0 = Done (Some k)"
  shows "simplefs_inode_save e nd s =
     Done (0, s\<lparr>cache := (cache s)(1 := wr_inode k nd (cache s 1)),
                disk := (disk s)(1 := wr_inode k nd (cache s 1)),
                dirty := (dirty s)(1 := False), tick := tick s + 2\<rparr>)"
  using assms by (simp add: simplefs_inode_save_def calm_simps buffer_defs)

section \<open>The block allocator\<close>

text \<open>The conversion of \<open>1 << i\<close> to 64 bits selects bit \<open>i\<close> below 31, and all bits from 31 up at 31.\<close>

definition block_free :: "u64 \<Rightarrow> nat \<Rightarrow> bool" where
  "block_free fb i \<longleftrightarrow> (if i < 31 then bit fb i else (\<exists>n\<ge>31. bit fb n))"

lemma and_mask_nonzero:
  assumes "i < 32"
  shows "(fb :: u64) AND int_to_u64 (push_bit i 1) \<noteq> 0 \<longleftrightarrow> block_free fb i"
proof -
  have "fb AND int_to_u64 (push_bit i 1) \<noteq> 0 \<longleftrightarrow>
      (\<exists>n. bit fb n \<and> bit (int_to_u64 (push_bit i 1)) n)"
    by (auto simp: bit_eq_iff bit_and_iff) (use bit_u64_less in blast)
  also have "\<dots> \<longleftrightarrow> block_free fb i"
    using assms bit_u64_less [of fb] by (auto simp: bit_int_to_u64_shl block_free_def)
  finally show ?thesis .
qed

lemma bit_clear_mask:
  assumes "i < 32"
  shows "bit ((fb :: u64) AND int_to_u64 (NOT (push_bit i 1))) n \<longleftrightarrow>
    bit fb n \<and> (if i < 31 then n \<noteq> i else n < 31)"
proof -
  have "int_to_u64 (NOT (push_bit i 1)) = NOT (int_to_u64 (push_bit i 1))"
    by (rule bit_eqI) (auto simp: int_to_u64_def bit_simps)
  then show ?thesis
    using assms bit_u64_less [of fb n] by (auto simp: bit_and_iff bit_not_iff bit_int_to_u64_shl)
qed

lemma block_free_clear_mask:
  assumes "i < 32"
  shows "block_free (fb AND int_to_u64 (NOT (push_bit i 1))) n \<longleftrightarrow> block_free fb n \<and> \<not> (n = i \<or> 31 \<le> n \<and> i = 31)"
  using assms by (auto simp: block_free_def bit_clear_mask)

lemma find_free_block_step:
  "i < 32 \<Longrightarrow> find_free_block fb i = (if block_free fb i then Done i else find_free_block fb (Suc i))"
  by (subst find_free_block.simps) (simp add: shl_int_def and_mask_nonzero)

lemma find_free_block_lowest:
  assumes "j < 32" "block_free fb j" "i \<le> j" "\<And>k. i \<le> k \<Longrightarrow> k < j \<Longrightarrow> \<not> block_free fb k"
  shows "find_free_block fb i = Done j"
  using assms(3,4)
proof (induction "j - i" arbitrary: i)
  case 0
  then have "i = j" by simp
  then show ?case using assms(1,2) by (simp add: find_free_block_step)
next
  case (Suc d)
  then have "i < j" "\<not> block_free fb i" by auto
  then have "find_free_block fb i = find_free_block fb (Suc i)"
    using assms(1) by (simp add: find_free_block_step)
  then show ?case using Suc \<open>i < j\<close> by simp
qed

lemma find_free_block_none:
  assumes "i \<le> 32" "\<And>k. i \<le> k \<Longrightarrow> k < 32 \<Longrightarrow> \<not> block_free fb k"
  shows "find_free_block fb i = Fault Undefined_shift"
  using assms
proof (induction "32 - i" arbitrary: i)
  case 0
  then have "i = 32" by simp
  then show ?case by (subst find_free_block.simps) (simp add: shl_int_def)
next
  case (Suc d)
  then have "i < 32" "\<not> block_free fb i" by auto
  then have "find_free_block fb i = find_free_block fb (Suc i)"
    by (simp add: find_free_block_step)
  then show ?case using Suc \<open>i < 32\<close> by simp
qed

text \<open>The block the allocator chooses, if there is one: the lowest that passes its test.\<close>

definition lowest_free :: "u64 \<Rightarrow> nat \<Rightarrow> bool" where
  "lowest_free fb j \<longleftrightarrow> 3 \<le> j \<and> j < 32 \<and> block_free fb j \<and> (\<forall>k. 3 \<le> k \<and> k < j \<longrightarrow> \<not> block_free fb k)"

lemma lowest_free_ex:
  assumes "3 \<le> k" "k < 32" "block_free fb k"
  obtains j where "lowest_free fb j"
proof -
  define j where "j = (LEAST j. 3 \<le> j \<and> block_free fb j)"
  have "3 \<le> j \<and> block_free fb j" "j \<le> k"
    unfolding j_def using assms by (auto intro: LeastI2 Least_le)
  moreover have "\<not> block_free fb i" if "3 \<le> i" "i < j" for i
    using that not_less_Least unfolding j_def by blast
  ultimately show thesis using assms(2) that [of j] by (auto simp: lowest_free_def)
qed

lemma find_lowest_free: "lowest_free fb j \<Longrightarrow> find_free_block fb 3 = Done j"
  by (rule find_free_block_lowest) (auto simp: lowest_free_def)

lemma get_a_freeblock_calm [calm_simps]:
  assumes "calm e" "\<not> held s simplefs_sb_lock" "lowest_free (free_blocks (sb_mem s)) j"
  shows "simplefs_sb_get_a_freeblock e s =
     (let sb = (sb_mem s)\<lparr>free_blocks := free_blocks (sb_mem s) AND int_to_u64 (NOT (push_bit j 1))\<rparr> in
      Done ((0, Some (of_nat j)),
        s\<lparr>cache := (cache s)(0 := wr_super sb (cache s 0)), disk := (disk s)(0 := wr_super sb (cache s 0)),
          dirty := (dirty s)(0 := False), tick := tick s + 2, sb_mem := sb\<rparr>))"
proof -
  have "find_free_block (free_blocks (sb_mem s)) 3 = Done j" "j < 32"
    using assms(3) by (simp_all add: find_lowest_free lowest_free_def)
  then show ?thesis
    using assms by (simp add: simplefs_sb_get_a_freeblock_def calm_simps shl_int_def Let_def)
qed

section \<open>The search in the inode store\<close>

lemma inode_search_step:
  "simplefs_inode_search b no i =
     (if i < INODES_PER_BLOCK
      then if inode_no (rd_inode i b) = no then Done (Some i) else simplefs_inode_search b no (Suc i)
      else Fault Out_of_bounds)"
  by (subst simplefs_inode_search.simps) simp

lemma inode_search_found:
  assumes "k < INODES_PER_BLOCK" "inode_no (rd_inode k b) = no"
    and "i \<le> k" "\<And>j. i \<le> j \<Longrightarrow> j < k \<Longrightarrow> inode_no (rd_inode j b) \<noteq> no"
  shows "simplefs_inode_search b no i = Done (Some k)"
  using assms(3,4)
proof (induction "k - i" arbitrary: i)
  case 0
  then have "i = k" by simp
  then show ?case using assms(1,2) by (subst inode_search_step) simp
next
  case (Suc d)
  then have "i < k" by simp
  then have "simplefs_inode_search b no i = simplefs_inode_search b no (Suc i)"
    using assms(1) Suc.prems(2) by (subst inode_search_step) auto
  then show ?case using Suc \<open>i < k\<close> by simp
qed

lemma inode_search_absent:
  assumes "\<And>j. i \<le> j \<Longrightarrow> j < INODES_PER_BLOCK \<Longrightarrow> inode_no (rd_inode j b) \<noteq> no"
  shows "simplefs_inode_search b no i = Fault Out_of_bounds"
  using assms
proof (induction "INODES_PER_BLOCK - i" arbitrary: i)
  case 0
  then show ?case by (subst inode_search_step) simp
next
  case (Suc d)
  then have "i < INODES_PER_BLOCK" by simp
  then have "simplefs_inode_search b no i = simplefs_inode_search b no (Suc i)"
    using Suc.prems by (subst inode_search_step) auto
  then show ?case using Suc \<open>i < INODES_PER_BLOCK\<close> by simp
qed

section \<open>The invariant of the inode store\<close>

text \<open>
  \<open>slot_used\<close>: a slot of the inode store holds an inode.  \<open>store_inv\<close> says, of the inode store
  block \<open>b\<close>, the in-core bitmap \<open>m\<close>, the in-core super block's object count \<open>c\<close> and free-block map \<open>fb\<close>:
  an inode sits in the slot its number names and its number is below 64; bit 0 of the bitmap is set,
  and bit \<open>n\<close> exactly when inode \<open>n\<close> exists; the count is the number of inodes; every inode has a data
  block between 2 and 31 that no other inode has, marked as not free if it is 3 or more; inode 1 is the
  root directory with data block 2.
\<close>

definition slot_used :: "blk \<Rightarrow> nat \<Rightarrow> bool" where
  "slot_used b i \<longleftrightarrow> inode_no (rd_inode i b) \<noteq> 0"

definition used_slots :: "blk \<Rightarrow> nat set" where
  "used_slots b = {i. i < INODES_PER_BLOCK \<and> slot_used b i}"

definition data_block :: "blk \<Rightarrow> nat \<Rightarrow> nat" where
  "data_block b i = unat (data_block_number (rd_inode i b))"

definition numbered :: "blk \<Rightarrow> bool" where
  "numbered b \<longleftrightarrow> (\<forall>i \<in> used_slots b. i < 63 \<and> unat (inode_no (rd_inode i b)) = Suc i)"

definition imap_inv :: "blk \<Rightarrow> u64 \<Rightarrow> bool" where
  "imap_inv b m \<longleftrightarrow> bit m 0 \<and> (\<forall>i<63. bit m (Suc i) \<longleftrightarrow> slot_used b i)"

definition blocks_inv :: "blk \<Rightarrow> u64 \<Rightarrow> bool" where
  "blocks_inv b fb \<longleftrightarrow>
     (\<forall>i \<in> used_slots b. 2 \<le> data_block b i \<and> data_block b i < 32 \<and>
        (3 \<le> data_block b i \<longrightarrow> \<not> block_free fb (data_block b i))) \<and>
     inj_on (data_block b) (used_slots b)"

definition root_inv :: "blk \<Rightarrow> bool" where
  "root_inv b \<longleftrightarrow> slot_used b 0 \<and> data_block b 0 = 2 \<and> S_ISDIR (ucast (mode (rd_inode 0 b)))"

definition store_inv :: "blk \<Rightarrow> u64 \<Rightarrow> u64 \<Rightarrow> u64 \<Rightarrow> bool" where
  "store_inv b m c fb \<longleftrightarrow>
     numbered b \<and> imap_inv b m \<and> c = of_nat (card (used_slots b)) \<and> blocks_inv b fb \<and> root_inv b"

definition fs_inv :: "'a sbstate_scheme \<Rightarrow> bool" where
  "fs_inv s \<longleftrightarrow> store_inv (cache s 1) (imap s) (inodes_count (sb_mem s)) (free_blocks (sb_mem s))"

lemma finite_used_slots [simp]: "finite (used_slots b)"
  by (simp add: used_slots_def)

lemma card_used_slots_le:
  assumes "blocks_inv b fb"
  shows "card (used_slots b) \<le> 30"
proof -
  have "data_block b ` used_slots b \<subseteq> {2..<32}"
    using assms by (auto simp: blocks_inv_def)
  then have "card (data_block b ` used_slots b) \<le> card {2..<32::nat}"
    by (intro card_mono) simp_all
  moreover have "card (data_block b ` used_slots b) = card (used_slots b)"
    using assms by (intro card_image) (simp add: blocks_inv_def)
  ultimately show ?thesis by simp
qed

lemma numbered_search:
  assumes "numbered b" "i \<in> used_slots b"
  shows "simplefs_inode_search b (inode_no (rd_inode i b)) 0 = Done (Some i)"
proof (rule inode_search_found)
  show "i < INODES_PER_BLOCK" using assms(2) by (simp add: used_slots_def)
  fix j assume j: "j < i"
  then have i: "i < 63" "unat (inode_no (rd_inode i b)) = Suc i"
    using assms by (auto simp: numbered_def)
  moreover have "inode_no (rd_inode j b) = 0 \<or> unat (inode_no (rd_inode j b)) = Suc j"
    using assms(1) j i(1) unfolding numbered_def used_slots_def slot_used_def by force
  ultimately show "inode_no (rd_inode j b) \<noteq> inode_no (rd_inode i b)"
    using j by auto
qed simp_all

subsection \<open>Preservation\<close>

lemma slot_used_wr [simp]: "slot_used (wr_inode k nd b) i \<longleftrightarrow> (if i = k then inode_no nd \<noteq> 0 else slot_used b i)"
  by (simp add: slot_used_def inodes.rd_wr_iff)

lemma slot_used_clr [simp]: "slot_used (clr_inode k b) i \<longleftrightarrow> i \<noteq> k \<and> slot_used b i"
  by (auto simp: slot_used_def inodes.rd_clr_iff)

lemma used_slots_wr:
  "inode_no nd \<noteq> 0 \<Longrightarrow> k < INODES_PER_BLOCK \<Longrightarrow> used_slots (wr_inode k nd b) = insert k (used_slots b)"
  by (auto simp: used_slots_def)

lemma used_slots_clr: "used_slots (clr_inode k b) = used_slots b - {k}"
  by (auto simp: used_slots_def)

lemma data_block_wr:
  "data_block (wr_inode k nd b) i = (if i = k then unat (data_block_number nd) else data_block b i)"
  by (simp add: data_block_def inodes.rd_wr_iff)

lemma data_block_clr: "i \<noteq> k \<Longrightarrow> data_block (clr_inode k b) i = data_block b i"
  by (simp add: data_block_def inodes.rd_clr_iff)

lemma store_inv_clear_free:
  "store_inv b m c fb \<Longrightarrow> (\<And>n. block_free fb' n \<Longrightarrow> block_free fb n) \<Longrightarrow> store_inv b m c fb'"
  unfolding store_inv_def blocks_inv_def by blast

lemma store_inv_add:
  assumes inv: "store_inv b m c fb" and k: "Suc k < 64" "\<not> bit m (Suc k)"
    and nd: "unat (inode_no nd) = Suc k" "unat (data_block_number nd) = d"
    and d: "3 \<le> d" "d < 32" "\<not> block_free fb d" "\<forall>i \<in> used_slots b. data_block b i \<noteq> d"
  shows "store_inv (wr_inode k nd b) (m OR push_bit (Suc k) 1) (c + 1) fb"
proof -
  let ?b = "wr_inode k nd b"
  have no: "inode_no nd \<noteq> 0" using nd(1) by auto
  have fresh: "\<not> slot_used b k" "k \<notin> used_slots b"
    using inv k by (auto simp: store_inv_def imap_inv_def used_slots_def)
  then have "k \<noteq> 0" using inv by (cases k) (auto simp: store_inv_def root_inv_def)
  have used: "used_slots ?b = insert k (used_slots b)"
    using no k(1) by (simp add: used_slots_wr)
  have "numbered ?b"
    using inv fresh nd(1) k(1) unfolding numbered_def used
    by (auto simp: store_inv_def numbered_def inodes.rd_wr_iff)
  moreover have "imap_inv ?b (m OR push_bit (Suc k) 1)"
    using inv k no by (auto simp: store_inv_def imap_inv_def)
  moreover have "c + 1 = of_nat (card (used_slots ?b))"
    using inv fresh used by (simp add: store_inv_def)
  moreover have "blocks_inv ?b fb"
  proof -
    have "data_block ?b k = d" "\<And>i. i \<in> used_slots b \<Longrightarrow> data_block ?b i = data_block b i"
      using fresh nd(2) by (auto simp: data_block_wr)
    then show ?thesis
      using inv d fresh unfolding blocks_inv_def used store_inv_def
      by (auto simp: inj_on_def)
  qed
  moreover have "root_inv ?b"
    using inv \<open>k \<noteq> 0\<close> by (simp add: store_inv_def root_inv_def data_block_wr inodes.rd_wr_iff)
  ultimately show ?thesis by (simp add: store_inv_def)
qed

lemma store_inv_del:
  assumes inv: "store_inv b m c fb" and k: "k \<in> used_slots b" "k \<noteq> 0"
  shows "store_inv (clr_inode k b) (m AND NOT (push_bit (Suc k) 1)) (c - 1) fb"
proof -
  let ?b = "clr_inode k b"
  have "k < 63" using inv k by (auto simp: store_inv_def numbered_def)
  have used: "used_slots ?b = used_slots b - {k}" by (rule used_slots_clr)
  have "numbered ?b"
    using inv unfolding numbered_def used by (auto simp: store_inv_def numbered_def inodes.rd_clr_iff)
  moreover have "imap_inv ?b (m AND NOT (push_bit (Suc k) 1))"
    using inv \<open>k < 63\<close> by (auto simp: store_inv_def imap_inv_def)
  moreover have "c - 1 = of_nat (card (used_slots ?b))"
  proof -
    have "card (used_slots b) = Suc (card (used_slots ?b))"
      using card_Suc_Diff1 [OF finite_used_slots k(1)] used by simp
    then show ?thesis using inv by (simp add: store_inv_def)
  qed
  moreover have "blocks_inv ?b fb"
    using inv unfolding blocks_inv_def used store_inv_def
    by (auto simp: data_block_clr inj_on_def)
  moreover have "root_inv ?b"
    using inv k(2) by (simp add: store_inv_def root_inv_def data_block_clr inodes.rd_clr_iff)
  ultimately show ?thesis by (simp add: store_inv_def)
qed

lemma store_inv_save:
  assumes inv: "store_inv b m c fb" and k: "k \<in> used_slots b"
    and nd: "inode_no nd = inode_no (rd_inode k b)" "data_block_number nd = data_block_number (rd_inode k b)"
      "mode nd = mode (rd_inode k b)"
  shows "store_inv (wr_inode k nd b) m c fb"
proof -
  let ?b = "wr_inode k nd b"
  have same: "inode_no (rd_inode i ?b) = inode_no (rd_inode i b)" "data_block ?b i = data_block b i"
    "mode (rd_inode i ?b) = mode (rd_inode i b)" for i
    using nd by (auto simp: inodes.rd_wr_iff data_block_def)
  then have "slot_used ?b = slot_used b" "used_slots ?b = used_slots b" "data_block ?b = data_block b"
    by (auto simp: slot_used_def used_slots_def fun_eq_iff simp del: slot_used_wr)
  then show ?thesis
    using inv same
    by (simp add: store_inv_def numbered_def imap_inv_def blocks_inv_def root_inv_def del: slot_used_wr)
qed

lemma store_inv_ffz:
  assumes inv: "store_inv b m c fb"
  obtains k where "ffz m = Done (Suc k)" "Suc k < 64" "\<not> bit m (Suc k)" "k \<notin> used_slots b"
proof -
  have "card (used_slots b) \<le> 30" using inv by (auto simp: store_inv_def intro: card_used_slots_le)
  then have "\<not> {..<63} \<subseteq> used_slots b"
    using card_mono [of "used_slots b" "{..<63}"] by auto
  then obtain i where "i < 63" "i \<notin> used_slots b" by auto
  then have "\<not> bit m (Suc i)" "Suc i < 64"
    using inv by (auto simp: store_inv_def imap_inv_def used_slots_def)
  then obtain j where j: "ffz m = Done j" using ffz_ex by blast
  then have bits: "j < 64" "\<not> bit m j" using ffz_Done by blast+
  then obtain k where k: "j = Suc k" using inv by (cases j) (auto simp: store_inv_def imap_inv_def)
  then have "k \<notin> used_slots b" using inv bits by (auto simp: store_inv_def imap_inv_def used_slots_def)
  then show thesis using that j bits k by blast
qed

section \<open>The inode store as a map from inode numbers to inodes\<close>

text \<open>
  The contract the directory operations and the mount rely on: a partial map from inode numbers to
  inodes, which \<open>simplefs_inode_add\<close>, \<open>simplefs_inode_del\<close> and \<open>simplefs_inode_save\<close> update at one number
  and \<open>simplefs_get_inode\<close> reads.
\<close>

definition inode_of :: "'a sbstate_scheme \<Rightarrow> u64 \<Rightarrow> simplefs_inode option" where
  "inode_of s no =
     (if no \<noteq> 0 \<and> unat no < 64 \<and> slot_used (cache s 1) (unat (no - 1))
      then Some (rd_inode (unat (no - 1)) (cache s 1)) else None)"

definition unlocked :: "'a kstate_scheme \<Rightarrow> bool" where
  "unlocked s \<longleftrightarrow> (\<forall>l. \<not> held s l)"

definition idle_inv :: "'a sbstate_scheme \<Rightarrow> bool" where
  "idle_inv s \<longleftrightarrow> fs_inv s \<and> unlocked s"

text \<open>A new inode is admitted under a number the bitmap covers, with a data block that is reserved and unused.\<close>

definition admits :: "'a sbstate_scheme \<Rightarrow> simplefs_inode \<Rightarrow> bool" where
  "admits s nd \<longleftrightarrow>
     inode_no nd \<noteq> 0 \<and> unat (inode_no nd) < 64 \<and>
     3 \<le> unat (data_block_number nd) \<and> unat (data_block_number nd) < 32 \<and>
     \<not> block_free (free_blocks (sb_mem s)) (unat (data_block_number nd)) \<and>
     (\<forall>i \<in> used_slots (cache s 1). data_block (cache s 1) i \<noteq> unat (data_block_number nd))"

locale inode_table =
  fixes inv :: "'s \<Rightarrow> bool" and look :: "'s \<Rightarrow> u64 \<Rightarrow> simplefs_inode option"
    and adm :: "'s \<Rightarrow> simplefs_inode \<Rightarrow> bool"
    and add del :: "simplefs_inode \<Rightarrow> 's \<Rightarrow> 's outcome"
    and save :: "simplefs_inode \<Rightarrow> 's \<Rightarrow> (int \<times> 's) outcome"
    and get :: "u64 \<Rightarrow> 's \<Rightarrow> (simplefs_inode option \<times> 's) outcome"
  assumes add_new: "\<lbrakk>inv s; look s (inode_no nd) = None; adm s nd\<rbrakk> \<Longrightarrow>
      \<exists>s'. add nd s = Done s' \<and> inv s' \<and> look s' = (look s)(inode_no nd \<mapsto> nd)"
    and del_old: "\<lbrakk>inv s; look s (inode_no nd) = Some nd0; inode_no nd \<noteq> 1\<rbrakk> \<Longrightarrow>
      \<exists>s'. del nd s = Done s' \<and> inv s' \<and> look s' = (look s)(inode_no nd := None)"
    and save_old: "\<lbrakk>inv s; look s (inode_no nd) = Some nd0; mode nd = mode nd0;
        data_block_number nd = data_block_number nd0\<rbrakk> \<Longrightarrow>
      \<exists>s'. save nd s = Done (0, s') \<and> inv s' \<and> look s' = (look s)(inode_no nd \<mapsto> nd)"
    and get_old: "\<lbrakk>inv s; look s no = Some nd\<rbrakk> \<Longrightarrow>
      \<exists>s'. get no s = Done (Some nd, s') \<and> inv s' \<and> look s' = look s"
begin

lemma add_get:
  assumes "inv s" "look s (inode_no nd) = None" "adm s nd"
  shows "\<exists>s' s''. add nd s = Done s' \<and> get (inode_no nd) s' = Done (Some nd, s'') \<and> inv s''"
proof -
  obtain s' where s': "add nd s = Done s'" "inv s'" "look s' = (look s)(inode_no nd \<mapsto> nd)"
    using add_new [OF assms] by blast
  then show ?thesis using get_old [OF s'(2), of "inode_no nd" nd] by auto
qed

lemma add_del:
  assumes "inv s" "look s (inode_no nd) = None" "adm s nd" "inode_no nd \<noteq> 1"
  shows "\<exists>s' s''. add nd s = Done s' \<and> del nd s' = Done s'' \<and> inv s'' \<and> look s'' = look s"
proof -
  obtain s' where s': "add nd s = Done s'" "inv s'" "look s' = (look s)(inode_no nd \<mapsto> nd)"
    using add_new [OF assms(1-3)] by blast
  moreover have "(look s)(inode_no nd := None) = look s" using assms(2) by (simp add: fun_upd_idem)
  ultimately show ?thesis using del_old [OF s'(2), of nd nd] assms(4) by auto
qed

lemma save_get:
  assumes "inv s" "look s (inode_no nd) = Some nd0" "mode nd = mode nd0"
    "data_block_number nd = data_block_number nd0"
  shows "\<exists>s' s''. save nd s = Done (0, s') \<and> get (inode_no nd) s' = Done (Some nd, s'') \<and>
    look s'' = (look s)(inode_no nd \<mapsto> nd)"
proof -
  obtain s' where s': "save nd s = Done (0, s')" "inv s'" "look s' = (look s)(inode_no nd \<mapsto> nd)"
    using save_old [OF assms] by blast
  then show ?thesis using get_old [OF s'(2), of "inode_no nd" nd] by auto
qed

end

lemma unat_pred: "no \<noteq> 0 \<Longrightarrow> unat (no - 1 :: u64) = unat no - 1"
  by (metis unat_minus_one)

lemma inode_of_Some:
  assumes "fs_inv s" "inode_of s no = Some nd"
  shows "unat (no - 1) \<in> used_slots (cache s 1)" "rd_inode (unat (no - 1)) (cache s 1) = nd"
    "inode_no nd = no" "no \<noteq> 0" "unat no < 64" "unat no = Suc (unat (no - 1))"
proof -
  show no: "no \<noteq> 0" "unat no < 64" and nd: "rd_inode (unat (no - 1)) (cache s 1) = nd"
    using assms(2) by (simp_all add: inode_of_def split: if_splits)
  show suc: "unat no = Suc (unat (no - 1))"
    using no(1) by (simp add: unat_pred unat_eq_0 [symmetric] del: unat_eq_0)
  show used: "unat (no - 1) \<in> used_slots (cache s 1)"
    using assms(2) suc by (simp add: inode_of_def used_slots_def split: if_splits)
  then have "unat (inode_no nd) = unat no"
    using assms(1) nd suc by (auto simp: fs_inv_def store_inv_def numbered_def)
  then show "inode_no nd = no" by (rule word_unat_eq_iff [THEN iffD2])
qed

lemma inode_of_upd:
  assumes "no \<noteq> 0" "unat no < 64"
    and "slot_used (cache s' 1) (unat (no - 1)) \<longleftrightarrow> v \<noteq> None"
    and "\<And>nd. v = Some nd \<Longrightarrow> rd_inode (unat (no - 1)) (cache s' 1) = nd"
    and "\<And>i. i \<noteq> unat (no - 1) \<Longrightarrow> rd_inode i (cache s' 1) = rd_inode i (cache s 1)"
  shows "inode_of s' = (inode_of s)(no := v)"
proof
  fix m
  show "inode_of s' m = ((inode_of s)(no := v)) m"
  proof (cases "m = no")
    case True
    then show ?thesis using assms(1-4) by (auto simp: inode_of_def)
  next
    case False
    have "m \<noteq> 0 \<Longrightarrow> unat (m - 1) \<noteq> unat (no - 1)"
      using False by (metis diff_add_cancel word_unat_eq_iff)
    then show ?thesis using False assms(5) by (auto simp: inode_of_def slot_used_def)
  qed
qed

lemma inode_of_cong: "cache s' 1 = cache s 1 \<Longrightarrow> inode_of s' = inode_of s"
  by (rule ext) (simp add: inode_of_def)

lemma unlocked_simps [simp]: "unlocked s \<Longrightarrow> \<not> held s l"
  by (simp add: unlocked_def)

locale calm_kernel =
  fixes e :: kenv
  assumes calm: "calm e"
begin

lemma store_add_new:
  assumes "idle_inv s" "inode_of s (inode_no nd) = None" "admits s nd"
  shows "\<exists>s'. simplefs_inode_add e nd s = Done s' \<and> idle_inv s' \<and>
    inode_of s' = (inode_of s)(inode_no nd \<mapsto> nd)"
proof -
  let ?no = "inode_no nd" and ?k = "unat (inode_no nd - 1)"
  have no: "?no \<noteq> 0" "unat ?no < 64" "unat ?no = Suc ?k"
    using assms(3) by (auto simp: admits_def unat_pred unat_eq_0 [symmetric] simp del: unat_eq_0)
  have inv: "store_inv (cache s 1) (imap s) (inodes_count (sb_mem s)) (free_blocks (sb_mem s))"
    and un: "unlocked s" using assms(1) by (simp_all add: idle_inv_def fs_inv_def)
  have "\<not> slot_used (cache s 1) ?k" using assms(2) no by (auto simp: inode_of_def split: if_splits)
  then have "\<not> bit (imap s) (Suc ?k)" using inv no by (simp add: store_inv_def imap_inv_def)
  then have inv': "store_inv (wr_inode ?k nd (cache s 1)) (imap s OR push_bit (Suc ?k) 1)
      (inodes_count (sb_mem s) + 1) (free_blocks (sb_mem s))"
    using assms(3) no by (intro store_inv_add [OF inv _ _ _ refl]) (auto simp: admits_def)
  obtain s' where s': "simplefs_inode_add e nd s = Done s'"
    and eq: "cache s' 1 = wr_inode ?k nd (cache s 1)" "imap s' = imap s OR push_bit (Suc ?k) 1"
      "inodes_count (sb_mem s') = inodes_count (sb_mem s) + 1"
      "free_blocks (sb_mem s') = free_blocks (sb_mem s)" "held s' = held s"
    using calm un no by (simp add: calm_simps Let_def)
  moreover have "idle_inv s'"
    using inv' eq un by (simp add: idle_inv_def fs_inv_def unlocked_def)
  moreover have "inode_of s' = (inode_of s)(?no \<mapsto> nd)"
    using no(1,2) by (rule inode_of_upd) (auto simp: eq inodes.rd_wr_iff no(1))
  ultimately show ?thesis by blast
qed

lemma store_del_old:
  assumes "idle_inv s" "inode_of s (inode_no nd) = Some nd0" "inode_no nd \<noteq> 1"
  shows "\<exists>s'. simplefs_inode_del e nd s = Done s' \<and> idle_inv s' \<and>
    inode_of s' = (inode_of s)(inode_no nd := None)"
proof -
  let ?no = "inode_no nd" and ?k = "unat (inode_no nd - 1)"
  have inv: "store_inv (cache s 1) (imap s) (inodes_count (sb_mem s)) (free_blocks (sb_mem s))"
    and un: "unlocked s" and fs: "fs_inv s" using assms(1) by (simp_all add: idle_inv_def fs_inv_def)
  note no = inode_of_Some [OF fs assms(2)]
  have "?k \<noteq> 0" using assms(3) by (metis diff_add_cancel add_0 unat_eq_0)
  then have inv': "store_inv (clr_inode ?k (cache s 1)) (imap s AND NOT (push_bit (Suc ?k) 1))
      (inodes_count (sb_mem s) - 1) (free_blocks (sb_mem s))"
    by (rule store_inv_del [OF inv no(1)])
  obtain s' where s': "simplefs_inode_del e nd s = Done s'"
    and eq: "cache s' 1 = clr_inode ?k (cache s 1)" "imap s' = imap s AND NOT (push_bit (Suc ?k) 1)"
      "inodes_count (sb_mem s') = inodes_count (sb_mem s) - 1"
      "free_blocks (sb_mem s') = free_blocks (sb_mem s)" "held s' = held s"
    using calm un no by (simp add: calm_simps Let_def)
  moreover have "idle_inv s'"
    using inv' eq un by (simp add: idle_inv_def fs_inv_def unlocked_def)
  moreover have "inode_of s' = (inode_of s)(?no := None)"
    using no(4,5) by (rule inode_of_upd) (auto simp: eq inodes.rd_clr_iff)
  ultimately show ?thesis by blast
qed

lemma store_save_old:
  assumes "idle_inv s" "inode_of s (inode_no nd) = Some nd0" "mode nd = mode nd0"
    "data_block_number nd = data_block_number nd0"
  shows "\<exists>s'. simplefs_inode_save e nd s = Done (0, s') \<and> idle_inv s' \<and>
    inode_of s' = (inode_of s)(inode_no nd \<mapsto> nd)"
proof -
  let ?no = "inode_no nd" and ?k = "unat (inode_no nd - 1)"
  have inv: "store_inv (cache s 1) (imap s) (inodes_count (sb_mem s)) (free_blocks (sb_mem s))"
    and un: "unlocked s" and fs: "fs_inv s" using assms(1) by (simp_all add: idle_inv_def fs_inv_def)
  note no = inode_of_Some [OF fs assms(2)]
  have inv': "store_inv (wr_inode ?k nd (cache s 1)) (imap s) (inodes_count (sb_mem s)) (free_blocks (sb_mem s))"
    using no assms(3,4) by (intro store_inv_save [OF inv no(1)]) simp_all
  have "simplefs_inode_search (cache s 1) ?no 0 = Done (Some ?k)"
    using numbered_search [OF _ no(1)] inv no by (simp add: store_inv_def)
  then obtain s' where s': "simplefs_inode_save e nd s = Done (0, s')"
    and eq: "cache s' 1 = wr_inode ?k nd (cache s 1)" "imap s' = imap s" "sb_mem s' = sb_mem s" "held s' = held s"
    using calm un by (simp add: calm_simps)
  moreover have "idle_inv s'"
    using inv' eq un by (simp add: idle_inv_def fs_inv_def unlocked_def)
  moreover have "inode_of s' = (inode_of s)(?no \<mapsto> nd)"
    using no(4,5) by (rule inode_of_upd) (auto simp: eq inodes.rd_wr_iff no(4))
  ultimately show ?thesis by blast
qed

lemma store_get_old:
  assumes "idle_inv s" "inode_of s no = Some nd"
  shows "\<exists>s'. simplefs_get_inode e no s = Done (Some nd, s') \<and> idle_inv s' \<and> inode_of s' = inode_of s"
proof -
  have fs: "fs_inv s" and un: "unlocked s" using assms(1) by (simp_all add: idle_inv_def)
  note no = inode_of_Some [OF fs assms(2)]
  have "simplefs_get_inode e no s = Done (Some nd, s\<lparr>tick := tick s + 3\<rparr>)"
    using get_inode_calm [OF calm, of s no] un no(1,2) by (simp add: used_slots_def)
  then show ?thesis
    using assms(1) inode_of_cong [of "s\<lparr>tick := tick s + 3\<rparr>" s]
    by (simp add: idle_inv_def fs_inv_def unlocked_def)
qed

end

sublocale calm_kernel \<subseteq> store: inode_table idle_inv inode_of admits
  "simplefs_inode_add e" "simplefs_inode_del e" "simplefs_inode_save e" "simplefs_get_inode e"
  by unfold_locales (use store_add_new store_del_old store_save_old store_get_old in blast)+

context calm_kernel
begin

lemmas store_add_get = store.add_get
lemmas store_add_del = store.add_del
lemmas store_save_get = store.save_get

end

interpretation quiet: calm_kernel quiet_env
  by unfold_locales simp

section \<open>Properties\<close>

text \<open>A file system with the root directory only, for the witnesses.\<close>

definition root_only :: sbstate where
  "root_only =
     \<lparr>cache = (\<lambda>n. if n = 1 then wr_inode 0 \<lparr>mode = 0x4000, inode_no = 1, data_block_number = 2, isize = 0\<rparr> (\<lambda>_. 0)
                   else (\<lambda>_. 0)),
      disk = (\<lambda>_ _. 0), dirty = (\<lambda>_. False), refs = (\<lambda>_. 0), held = (\<lambda>_. False), tick = 0,
      sb_mem = \<lparr>version = 1, magic = SIMPLEFS_MAGIC, block_size = 4096, inodes_count = 1, free_blocks = - 1\<rparr>,
      imap = 3\<rparr>"

lemma rd_inode_zero: "rd_inode i (\<lambda>_. 0) = zero_inode"
proof -
  have "blk_read off n (\<lambda>_. 0) = replicate n 0" for off n
    by (simp add: list_eq_iff_nth_eq)
  then show ?thesis by (simp add: rd_inode_def get_u64_def get_u32_def)
qed

lemma bit_3_u64: "bit (3 :: u64) n \<longleftrightarrow> n = 0 \<or> n = 1"
  by (cases n; cases "n - 1") (auto simp: bit_Suc bit_0)

lemma root_only_slots: "rd_inode i (cache root_only 1) =
    (if i = 0 then \<lparr>mode = 0x4000, inode_no = 1, data_block_number = 2, isize = 0\<rparr> else zero_inode)"
  by (simp add: root_only_def inodes.rd_wr_iff rd_inode_zero)

lemma root_only_inv: "idle_inv root_only"
proof -
  let ?b = "cache root_only 1"
  note rd = root_only_slots
  then have used: "slot_used ?b i \<longleftrightarrow> i = 0" "used_slots ?b = {0}" for i
    by (auto simp: slot_used_def used_slots_def)
  have "store_inv ?b 3 1 (- 1)"
    unfolding store_inv_def numbered_def imap_inv_def blocks_inv_def root_inv_def data_block_def used
    by (auto simp: rd bit_3_u64 S_ISDIR_def bit_1_iff)
  then show ?thesis
    by (simp add: idle_inv_def fs_inv_def unlocked_def) (simp add: root_only_def)
qed

text \<open>The same file system after block 3 was allocated, and an inode that takes it.\<close>

definition block3_taken :: sbstate where
  "block3_taken = root_only\<lparr>sb_mem := (sb_mem root_only)\<lparr>free_blocks :=
     free_blocks (sb_mem root_only) AND int_to_u64 (NOT (push_bit 3 1))\<rparr>\<rparr>"

definition sample_inode :: simplefs_inode where
  "sample_inode = \<lparr>mode = 0x8000, inode_no = 2, data_block_number = 3, isize = 0\<rparr>"

lemma block3_taken_inv: "idle_inv block3_taken"
proof -
  have "store_inv (cache root_only 1) (imap root_only) (inodes_count (sb_mem root_only)) (free_blocks (sb_mem root_only))"
    using root_only_inv by (simp add: idle_inv_def fs_inv_def)
  then have "store_inv (cache root_only 1) (imap root_only) (inodes_count (sb_mem root_only))
      (free_blocks (sb_mem root_only) AND int_to_u64 (NOT (push_bit 3 1)))"
    by (rule store_inv_clear_free) (simp add: block_free_clear_mask)
  then show ?thesis
    using root_only_inv by (simp add: idle_inv_def fs_inv_def block3_taken_def unlocked_def)
qed

lemma block3_taken_admits: "admits block3_taken sample_inode" "inode_of block3_taken 2 = None"
proof -
  have c: "cache block3_taken = cache root_only" by (simp add: block3_taken_def)
  have "\<not> block_free (free_blocks (sb_mem block3_taken)) 3"
    by (simp add: block3_taken_def block_free_clear_mask)
  moreover have "\<forall>i \<in> used_slots (cache root_only 1). data_block (cache root_only 1) i \<noteq> 3"
    by (auto simp: used_slots_def slot_used_def data_block_def root_only_slots)
  ultimately show "admits block3_taken sample_inode"
    by (simp add: admits_def sample_inode_def c)
  show "inode_of block3_taken 2 = None"
    by (simp add: inode_of_def c slot_used_def root_only_slots)
qed

text \<open>C16: block allocation is sound.  In an idle file system that satisfies the invariant and has a free
  block among 3 to 31, \<open>simplefs_sb_get_a_freeblock\<close> succeeds; the block it returns is the lowest free
  one and belongs to no inode.  Below 31 the free map loses exactly that block; for block 31 it loses 31 to 63, because the mask
  is an \<open>int\<close>.  The other fields of the super block, all inodes and all other blocks are unchanged, the invariant holds, all
  locks are released, and the device holds the new super block.\<close>

theorem freeblock_alloc_sound:
  assumes "calm e" "idle_inv s" "3 \<le> k" "k < 32" "block_free (free_blocks (sb_mem s)) k"
  shows "\<exists>j s'. simplefs_sb_get_a_freeblock e s = Done ((0, Some (of_nat j)), s') \<and>
    lowest_free (free_blocks (sb_mem s)) j \<and>
    (\<forall>i \<in> used_slots (cache s 1). data_block (cache s 1) i \<noteq> j) \<and>
    (\<forall>n. bit (free_blocks (sb_mem s')) n \<longleftrightarrow> bit (free_blocks (sb_mem s)) n \<and> (if j < 31 then n \<noteq> j else n < 31)) \<and>
    sb_mem s' = (sb_mem s)\<lparr>free_blocks := free_blocks (sb_mem s')\<rparr> \<and>
    (\<forall>n. n \<noteq> 0 \<longrightarrow> cache s' n = cache s n \<and> disk s' n = disk s n) \<and>
    \<not> block_free (free_blocks (sb_mem s')) j \<and> idle_inv s' \<and> inode_of s' = inode_of s \<and>
    rd_super (disk s' 0) = sb_mem s'"
proof -
  obtain j where j: "lowest_free (free_blocks (sb_mem s)) j"
    using lowest_free_ex assms(3-5) by blast
  then have j': "3 \<le> j" "j < 32" "block_free (free_blocks (sb_mem s)) j"
    by (simp_all add: lowest_free_def)
  have inv: "fs_inv s" and un: "unlocked s" using assms(2) by (simp_all add: idle_inv_def)
  let ?fb = "free_blocks (sb_mem s) AND int_to_u64 (NOT (push_bit j 1))"
  let ?sb = "(sb_mem s)\<lparr>free_blocks := ?fb\<rparr>"
  let ?s = "s\<lparr>cache := (cache s)(0 := wr_super ?sb (cache s 0)), disk := (disk s)(0 := wr_super ?sb (cache s 0)),
     dirty := (dirty s)(0 := False), tick := tick s + 2, sb_mem := ?sb\<rparr>"
  have get: "simplefs_sb_get_a_freeblock e s = Done ((0, Some (of_nat j)), ?s)"
    using get_a_freeblock_calm [OF assms(1) _ j] un by (simp add: Let_def)
  have "store_inv (cache s 1) (imap s) (inodes_count (sb_mem s)) ?fb"
    using inv unfolding fs_inv_def by (rule store_inv_clear_free) (simp add: block_free_clear_mask j')
  then have "idle_inv ?s" using un by (simp add: idle_inv_def fs_inv_def unlocked_def)
  moreover have "\<forall>i \<in> used_slots (cache s 1). data_block (cache s 1) i \<noteq> j"
    using inv j' by (auto simp: fs_inv_def store_inv_def blocks_inv_def)
  moreover have "\<not> block_free ?fb j" using j' by (simp add: block_free_clear_mask)
  moreover have "inode_of ?s = inode_of s" by (rule inode_of_cong) simp
  ultimately show ?thesis using get j by (intro exI [of _ j] exI [of _ ?s]) (simp add: blk_simps bit_clear_mask j')
qed

theorem freeblock_alloc_sound_witness:
  "\<exists>j s'. simplefs_sb_get_a_freeblock quiet_env root_only = Done ((0, Some (of_nat j)), s') \<and>
     lowest_free (- 1) j \<and> idle_inv s'"
proof -
  have "block_free (free_blocks (sb_mem root_only)) 3" "free_blocks (sb_mem root_only) = - 1"
    by (simp_all add: root_only_def block_free_def bit_minus_1_iff)
  then show ?thesis using freeblock_alloc_sound [OF _ root_only_inv, of quiet_env 3] by fastforce
qed

text \<open>C25: What the allocator's loop computes.  For every free-block map it is the first block from 3 to 31 that passes the
  test \<open>block_free\<close>, and if none does the loop runs into the undefined shift by 32; the upper half of the map is never seen as
  single blocks.\<close>

theorem find_free_block_equivalent:
  "find_free_block fb 3 = (case find (block_free fb) [3..<32] of Some j \<Rightarrow> Done j | None \<Rightarrow> Fault Undefined_shift)"
proof (cases "find (block_free fb) [3..<32]")
  case None
  then have "\<not> block_free fb k" if "3 \<le> k" "k < 32" for k
    using that by (auto simp: find_None_iff simp del: upt_rec_numeral)
  then show ?thesis using None by (simp add: find_free_block_none del: upt_rec_numeral)
next
  case (Some j)
  note j = find_upt_Some [OF Some]
  have "find_free_block fb 3 = Done j" using j by (intro find_free_block_lowest) auto
  then show ?thesis using Some by (simp del: upt_rec_numeral)
qed

text \<open>C26: Searching agrees with indexing.  \<open>simplefs_inode_save\<close> finds an inode by a search through the store, the other operations take the
  slot its number names.  With the invariant the search gives that slot for every number in use; for every other number but 0
  it reads past the block instead of returning NULL, so that \<open>-EIO\<close> is never returned.\<close>

theorem inode_search_equivalent:
  assumes "fs_inv s" "no \<noteq> 0"
  shows "simplefs_inode_search (cache s 1) no 0 =
    (if inode_of s no \<noteq> None then Done (Some (unat (no - 1))) else Fault Out_of_bounds)"
proof (cases "inode_of s no")
  case (Some nd)
  note nd = inode_of_Some [OF assms(1) Some]
  then show ?thesis using numbered_search [OF _ nd(1)] assms(1) Some by (simp add: fs_inv_def store_inv_def)
next
  case None
  have "inode_no (rd_inode i (cache s 1)) \<noteq> no" if "i < INODES_PER_BLOCK" for i
  proof
    assume no: "inode_no (rd_inode i (cache s 1)) = no"
    then have used: "i \<in> used_slots (cache s 1)" using assms(2) that by (simp add: used_slots_def slot_used_def)
    then have "i < 63" "unat no = Suc i" using assms(1) no by (auto simp: fs_inv_def store_inv_def numbered_def)
    then show False using None used assms(2) unat_pred [OF assms(2)] by (simp add: inode_of_def used_slots_def)
  qed
  then show ?thesis using None inode_search_absent [of 0 "cache s 1" no] by simp
qed

theorem inode_search_equivalent_witness:
  "simplefs_inode_search (cache root_only 1) 1 0 = Done (Some 0) \<and> simplefs_inode_search (cache root_only 1) 2 0 = Fault Out_of_bounds"
proof -
  have "fs_inv root_only" using root_only_inv by (simp add: idle_inv_def)
  from inode_search_equivalent [OF this, of 1] inode_search_equivalent [OF this, of 2]
  show ?thesis by (simp add: inode_of_def slot_used_def root_only_slots)
qed

text \<open>The error for a full device is never returned.  Whatever the state and the environment,
  \<open>simplefs_sb_get_a_freeblock\<close> does not return \<open>-ENOSPC\<close>: the constant 1 it shifts is an \<open>int\<close>, and before
  its counter reaches 64 the loop has evaluated \<open>1 << 32\<close>.\<close>

theorem freeblock_never_ENOSPC:
  "simplefs_sb_get_a_freeblock e s \<noteq> Done ((- ENOSPC, out), s')"
proof
  assume *: "simplefs_sb_get_a_freeblock e s = Done ((- ENOSPC, out), s')"
  have "find_free_block fb 3 \<noteq> Done 64" for fb
  proof (cases "\<exists>k. 3 \<le> k \<and> k < 32 \<and> block_free fb k")
    case True
    then obtain j where "lowest_free fb j" using lowest_free_ex by blast
    then show ?thesis by (auto simp: find_lowest_free lowest_free_def)
  next
    case False
    then show ?thesis using find_free_block_none [of 3 fb] by simp
  qed
  then show False
    using * by (auto simp: simplefs_sb_get_a_freeblock_def Let_def outcome_simps split: if_splits prod.splits)
qed

text \<open>What happens instead on a full device: when no block from 3 to 31 is free, the allocation runs
  into the undefined shift.\<close>

theorem freeblock_exhausted:
  assumes "calm e" "\<not> held s simplefs_sb_lock"
    and "\<And>k. 3 \<le> k \<Longrightarrow> k < 32 \<Longrightarrow> \<not> block_free (free_blocks (sb_mem s)) k"
  shows "simplefs_sb_get_a_freeblock e s = Fault Undefined_shift"
  using assms find_free_block_none [of 3 "free_blocks (sb_mem s)"]
  by (simp add: simplefs_sb_get_a_freeblock_def calm_simps)

theorem freeblock_exhausted_witness:
  "simplefs_sb_get_a_freeblock quiet_env (root_only\<lparr>sb_mem := (sb_mem root_only)\<lparr>free_blocks := mask 3\<rparr>\<rparr>)
     = Fault Undefined_shift"
  by (rule freeblock_exhausted) (simp_all add: root_only_def block_free_def bit_mask_iff)

text \<open>C30: the allocation of block 31 gives up every block above it.  When the blocks 3 to 30 are taken and
  any of the bits from 31 up is set, the allocator returns 31 and clears all of them, because
  \<open>~(1 << 31)\<close> is a 32-bit number.\<close>

theorem freeblock_31_drops_rest:
  assumes "calm e" "\<not> held s simplefs_sb_lock"
    and "\<And>k. 3 \<le> k \<Longrightarrow> k < 31 \<Longrightarrow> \<not> bit (free_blocks (sb_mem s)) k"
    and "31 \<le> n" "bit (free_blocks (sb_mem s)) n"
  shows "\<exists>s'. simplefs_sb_get_a_freeblock e s = Done ((0, Some 31), s') \<and>
    (\<forall>m. bit (free_blocks (sb_mem s')) m \<longleftrightarrow> m < 3 \<and> bit (free_blocks (sb_mem s)) m)"
proof -
  have low: "lowest_free (free_blocks (sb_mem s)) 31"
    using assms(3-5) by (auto simp: lowest_free_def block_free_def)
  have "bit (free_blocks (sb_mem s)) m \<and> m < 31 \<longleftrightarrow> m < 3 \<and> bit (free_blocks (sb_mem s)) m" for m
    using assms(3) [of m] by (cases "3 \<le> m") auto
  then show ?thesis
    using get_a_freeblock_calm [OF assms(1,2) low] by (simp add: Let_def bit_clear_mask)
qed

theorem freeblock_31_drops_rest_witness:
  "\<exists>s'. simplefs_sb_get_a_freeblock quiet_env
       (root_only\<lparr>sb_mem := (sb_mem root_only)\<lparr>free_blocks := push_bit 40 1\<rparr>\<rparr>) = Done ((0, Some 31), s') \<and>
     \<not> bit (free_blocks (sb_mem s')) 40"
proof -
  let ?s = "root_only\<lparr>sb_mem := (sb_mem root_only)\<lparr>free_blocks := push_bit 40 1\<rparr>\<rparr>"
  have "\<exists>s'. simplefs_sb_get_a_freeblock quiet_env ?s = Done ((0, Some 31), s') \<and>
    (\<forall>m. bit (free_blocks (sb_mem s')) m \<longleftrightarrow> m < 3 \<and> bit (free_blocks (sb_mem ?s)) m)"
    by (rule freeblock_31_drops_rest [where n = 40]) (simp_all add: root_only_def bit_simps)
  then show ?thesis by auto
qed

text \<open>An interrupted allocation releases a mutex it does not hold: when a signal interrupts
  \<open>mutex_lock_interruptible\<close>, the jump to \<open>end\<close> unlocks \<open>simplefs_sb_lock\<close> all the same.\<close>

theorem freeblock_interrupted_unlocks:
  assumes "intr e (tick s)" "\<not> held s simplefs_sb_lock"
  shows "simplefs_sb_get_a_freeblock e s = Fault Bad_unlock"
  using assms by (simp add: simplefs_sb_get_a_freeblock_def interrupted_lock mutex_unlock_def)

theorem freeblock_interrupted_unlocks_witness:
  "simplefs_sb_get_a_freeblock (quiet_env\<lparr>intr := (\<lambda>n. n = 0)\<rparr>) root_only = Fault Bad_unlock"
  by (rule freeblock_interrupted_unlocks) (simp_all add: root_only_def)

text \<open>Storing an inode and reading it back.  In an idle file system with the invariant, adding an
  inode under an unused number with a reserved data block succeeds, and \<open>simplefs_get_inode\<close> for its
  number then returns exactly that inode; the invariant (bitmap, slots, count, block ownership) still holds.\<close>

theorem inode_add_get_roundtrip:
  assumes "calm e" "idle_inv s" "inode_of s (inode_no nd) = None" "admits s nd"
  shows "\<exists>s' s''. simplefs_inode_add e nd s = Done s' \<and>
    simplefs_get_inode e (inode_no nd) s' = Done (Some nd, s'') \<and> idle_inv s''"
  using calm_kernel.store_add_get [OF calm_kernel.intro [OF assms(1)] assms(2-4)] .

theorem inode_add_get_roundtrip_witness:
  "\<exists>s' s''. simplefs_inode_add quiet_env sample_inode block3_taken = Done s' \<and>
    simplefs_get_inode quiet_env 2 s' = Done (Some sample_inode, s'') \<and> idle_inv s''"
  using inode_add_get_roundtrip [OF calm_quiet_env(1) block3_taken_inv _ block3_taken_admits(1)]
    block3_taken_admits(2) by (simp add: sample_inode_def)

text \<open>Deletion undoes addition: \<open>simplefs_inode_del\<close> of an inode just added leaves the same inodes under
  the same numbers, and the invariant.\<close>

theorem inode_add_del_roundtrip:
  assumes "calm e" "idle_inv s" "inode_of s (inode_no nd) = None" "admits s nd" "inode_no nd \<noteq> 1"
  shows "\<exists>s' s''. simplefs_inode_add e nd s = Done s' \<and> simplefs_inode_del e nd s' = Done s'' \<and>
    idle_inv s'' \<and> inode_of s'' = inode_of s"
  using calm_kernel.store_add_del [OF calm_kernel.intro [OF assms(1)] assms(2-5)] .

theorem inode_add_del_roundtrip_witness:
  "\<exists>s' s''. simplefs_inode_add quiet_env sample_inode block3_taken = Done s' \<and>
    simplefs_inode_del quiet_env sample_inode s' = Done s'' \<and> idle_inv s'' \<and> inode_of s'' = inode_of block3_taken"
  using inode_add_del_roundtrip [OF calm_quiet_env(1) block3_taken_inv _ block3_taken_admits(1)]
    block3_taken_admits(2) by (simp add: sample_inode_def)

text \<open>C17: \<open>simplefs_inode_save\<close> replaces the stored inode of that number and nothing else, and what it
  stores is read back.\<close>

theorem inode_save_get_roundtrip:
  assumes "calm e" "idle_inv s" "inode_of s (inode_no nd) = Some nd0" "mode nd = mode nd0"
    "data_block_number nd = data_block_number nd0"
  shows "\<exists>s' s''. simplefs_inode_save e nd s = Done (0, s') \<and>
    simplefs_get_inode e (inode_no nd) s' = Done (Some nd, s'') \<and>
    inode_of s'' = (inode_of s)(inode_no nd \<mapsto> nd)"
  using calm_kernel.store_save_get [OF calm_kernel.intro [OF assms(1)] assms(2-5)] .

theorem inode_save_get_roundtrip_witness:
  "\<exists>s' s''. simplefs_inode_save quiet_env \<lparr>mode = 0x4000, inode_no = 1, data_block_number = 2, isize = 7\<rparr> root_only
       = Done (0, s') \<and>
    simplefs_get_inode quiet_env 1 s' =
      Done (Some \<lparr>mode = 0x4000, inode_no = 1, data_block_number = 2, isize = 7\<rparr>, s'')"
proof -
  let ?nd = "\<lparr>mode = 0x4000, inode_no = 1, data_block_number = 2, isize = 7\<rparr> :: simplefs_inode"
  have "inode_of root_only (inode_no ?nd) = Some \<lparr>mode = 0x4000, inode_no = 1, data_block_number = 2, isize = 0\<rparr>"
    by (simp add: inode_of_def slot_used_def root_only_slots)
  from inode_save_get_roundtrip [OF calm_quiet_env(1) root_only_inv this] show ?thesis by simp blast
qed

text \<open>\<open>simplefs_inode_save\<close> never returns \<open>-EIO\<close>.  The search of an inode that is not in the store
  compares one structure past the end of the block before it can report failure.\<close>

theorem inode_save_never_EIO:
  "simplefs_inode_save e nd s \<noteq> Done (- EIO, s')"
proof
  assume *: "simplefs_inode_save e nd s = Done (- EIO, s')"
  have "simplefs_inode_search b no 0 \<noteq> Done None" for b no
  proof -
    have "simplefs_inode_search b no i \<noteq> Done None" for i
      by (induction b no i rule: simplefs_inode_search.induct) (subst inode_search_step, simp)
    then show ?thesis .
  qed
  then show False
    using * by (auto simp: simplefs_inode_save_def Let_def outcome_simps split: if_splits prod.splits option.splits)
qed

text \<open>C31: an interrupted \<open>simplefs_inode_add\<close> leaves \<open>simplefs_inodes_mgmt_lock\<close> held.  If a signal
  interrupts its second lock, the function returns to a caller that cannot notice: nothing was stored,
  the reference on the inode store buffer is kept, and the next operation that takes the lock deadlocks.\<close>

theorem inode_add_interrupted_keeps_lock:
  assumes "\<not> intr e (tick s)" "intr e (tick s + 2)" "\<not> io_fails e (Suc (tick s))"
    and "\<not> held s simplefs_inodes_mgmt_lock" "calm e'"
  shows "\<exists>s'. simplefs_inode_add e nd s = Done s' \<and> held s' simplefs_inodes_mgmt_lock \<and>
    refs s' 1 = Suc (refs s 1) \<and> cache s' = cache s \<and> imap s' = imap s \<and>
    simplefs_sb_get_objects_count e' s' = Fault Self_deadlock"
  using assms
  by (simp add: simplefs_inode_add_def mutex_lock_interruptible_def sb_bread_def
      simplefs_sb_get_objects_count_def calm_def)

theorem inode_add_interrupted_keeps_lock_witness:
  "\<exists>s'. simplefs_inode_add (quiet_env\<lparr>intr := (\<lambda>n. n = 2)\<rparr>) sample_inode block3_taken = Done s' \<and>
    simplefs_sb_get_objects_count quiet_env s' = Fault Self_deadlock"
  using inode_add_interrupted_keeps_lock [of "quiet_env\<lparr>intr := (\<lambda>n. n = 2)\<rparr>" block3_taken quiet_env sample_inode]
  by (simp add: block3_taken_def root_only_def) (auto simp: quiet_env_def)

text \<open>The deletion of an inode is not durable when it returns.  \<open>simplefs_inode_del\<close> writes out the super
  block with the smaller count, but only marks the inode store as dirty: on the device the inode is
  still there, so that after a crash the count and the store disagree.\<close>

theorem inode_del_not_durable:
  assumes "calm e" "idle_inv s" "inode_of s (inode_no nd) = Some nd0" "disk s 1 = cache s 1"
  shows "\<exists>s'. simplefs_inode_del e nd s = Done s' \<and>
    inodes_count (rd_super (disk s' 0)) = of_nat (card (used_slots (disk s' 1))) - 1 \<and>
    slot_used (disk s' 1) (unat (inode_no nd - 1)) \<and> dirty s' 1"
proof -
  have fs: "fs_inv s" and un: "unlocked s" using assms(2) by (simp_all add: idle_inv_def)
  note no = inode_of_Some [OF fs assms(3)]
  show ?thesis
    using un no(1,5,6) assms(4) fs
    by (simp add: inode_del_calm [OF assms(1)] Let_def blk_simps used_slots_def fs_inv_def store_inv_def)
qed

theorem inode_del_not_durable_witness:
  "\<exists>s'. simplefs_inode_del quiet_env \<lparr>mode = 0x4000, inode_no = 1, data_block_number = 2, isize = 0\<rparr>
        (root_only\<lparr>disk := cache root_only\<rparr>) = Done s' \<and> slot_used (disk s' 1) 0 \<and> dirty s' 1"
proof -
  let ?nd = "\<lparr>mode = 0x4000, inode_no = 1, data_block_number = 2, isize = 0\<rparr> :: simplefs_inode"
  let ?s = "root_only\<lparr>disk := cache root_only\<rparr>"
  have "idle_inv ?s" using root_only_inv by (simp add: idle_inv_def fs_inv_def unlocked_def)
  moreover have "inode_of ?s (inode_no ?nd) = Some ?nd"
    by (simp add: inode_of_def slot_used_def root_only_slots)
  ultimately show ?thesis using inode_del_not_durable [OF calm_quiet_env(1), of ?s ?nd ?nd] by auto
qed

end
