(* ===== verification/Sfs_Vfs.thy ===== *)
theory Sfs_Vfs
  imports Sfs_Dir_Cache Sfs_Inode_Store
begin

text \<open>
  The objects of the virtual file system that \<open>simplefs/simple.c\<close> works on: in-core inodes and
  directory entries, each in a table indexed by its address.  The private inode \<open>i_private\<close> points to
  is owned by the in-core inode and therefore a field of it; the cache \<open>d_fsdata\<close> points to is
  owned by the directory entry.  A pointer that is no object of its table is a \<^const>\<open>Bad_pointer\<close>
  fault, NULL where an object is needed a \<^const>\<open>Null_deref\<close> fault.
\<close>

section \<open>Objects\<close>

text \<open>The two tables of file operations an in-core inode can be given.\<close>

datatype file_operations = simplefs_file_operations | simplefs_dir_operations

record vinode =
  i_ino :: u64
  i_mode :: u16
  i_fop :: "file_operations option"
  i_time :: nat
  i_private :: "simplefs_inode option"

text \<open>\<open>d_fsdata\<close> is NULL, or an error pointer (\<open>Inl\<close>), or the directory cache.\<close>

record dentry =
  d_inode :: "nat option"
  d_parent :: nat
  d_name :: bytes
  d_fsdata :: "(int + simplefs_dir_cache) option"
  d_count :: int

record fsstate = sbstate +
  icache :: "nat \<Rightarrow> vinode option"
  next_inode :: nat
  dcache :: "nat \<Rightarrow> dentry option"

section \<open>Access\<close>

definition get_dentry :: "nat \<Rightarrow> 'a fsstate_scheme \<Rightarrow> dentry outcome" where
  "get_dentry d s = (case dcache s d of None \<Rightarrow> Fault Bad_pointer | Some de \<Rightarrow> Done de)"

definition get_vinode :: "nat option \<Rightarrow> 'a fsstate_scheme \<Rightarrow> vinode outcome" where
  "get_vinode p s =
     (case p of None \<Rightarrow> Fault Null_deref
      | Some v \<Rightarrow> (case icache s v of None \<Rightarrow> Fault Bad_pointer | Some vi \<Rightarrow> Done vi))"

text \<open>\<open>SIMPLEFS_INODE(inode)\<close>, dereferenced.\<close>

definition SIMPLEFS_INODE :: "nat option \<Rightarrow> 'a fsstate_scheme \<Rightarrow> simplefs_inode outcome" where
  "SIMPLEFS_INODE p s =
     bnd (get_vinode p s) (\<lambda>vi.
     case i_private vi of None \<Rightarrow> Fault Null_deref | Some nd \<Rightarrow> Done nd)"

definition deref_cache :: "(int + simplefs_dir_cache) option \<Rightarrow> simplefs_dir_cache outcome" where
  "deref_cache p =
     (case p of None \<Rightarrow> Fault Null_deref | Some (Inl _) \<Rightarrow> Fault Bad_pointer | Some (Inr dc) \<Rightarrow> Done dc)"

definition out_param :: "'b option \<Rightarrow> 'b outcome" where
  "out_param p = (case p of None \<Rightarrow> Fault Uninitialised | Some x \<Rightarrow> Done x)"

definition upd_vinode :: "nat \<Rightarrow> (vinode \<Rightarrow> vinode) \<Rightarrow> 'a fsstate_scheme \<Rightarrow> 'a fsstate_scheme" where
  "upd_vinode v f s = s\<lparr>icache := (icache s)(v := map_option f (icache s v))\<rparr>"

definition upd_private :: "nat \<Rightarrow> simplefs_inode \<Rightarrow> 'a fsstate_scheme \<Rightarrow> 'a fsstate_scheme" where
  "upd_private v nd s = upd_vinode v (\<lambda>vi. vi\<lparr>i_private := Some nd\<rparr>) s"

definition upd_dentry :: "nat \<Rightarrow> (dentry \<Rightarrow> dentry) \<Rightarrow> 'a fsstate_scheme \<Rightarrow> 'a fsstate_scheme" where
  "upd_dentry d f s = s\<lparr>dcache := (dcache s)(d := map_option f (dcache s d))\<rparr>"

section \<open>Services of the virtual file system\<close>

text \<open>\<open>new_inode\<close>: the address of a new in-core inode, with the fields the kernel clears; NULL when memory is short.\<close>

definition blank_inode :: vinode where
  "blank_inode = \<lparr>i_ino = 0, i_mode = 0, i_fop = None, i_time = 0, i_private = None\<rparr>"

definition new_inode :: "kenv \<Rightarrow> 'a fsstate_scheme \<Rightarrow> nat option \<times> 'a fsstate_scheme" where
  "new_inode e s =
     (let (ok, s) = alloc e s in
      if \<not> ok then (None, s)
      else (Some (next_inode s),
            s\<lparr>icache := (icache s)(next_inode s := Some blank_inode), next_inode := Suc (next_inode s)\<rparr>))"

text \<open>\<open>inode_init_owner(inode, dir, mode)\<close> stores the mode the environment derives from the parent and \<open>mode\<close>.\<close>

definition inode_init_owner :: "kenv \<Rightarrow> nat \<Rightarrow> u16 option \<Rightarrow> u16 \<Rightarrow> 'a fsstate_scheme \<Rightarrow> 'a fsstate_scheme" where
  "inode_init_owner e v dirmode m s = upd_vinode v (\<lambda>vi. vi\<lparr>i_mode := owner_mode e dirmode m\<rparr>) s"

definition d_add :: "nat \<Rightarrow> nat option \<Rightarrow> 'a fsstate_scheme \<Rightarrow> 'a fsstate_scheme" where
  "d_add d v s = upd_dentry d (\<lambda>de. de\<lparr>d_inode := v\<rparr>) s"

definition dput :: "nat \<Rightarrow> 'a fsstate_scheme \<Rightarrow> 'a fsstate_scheme" where
  "dput d s = upd_dentry d (\<lambda>de. de\<lparr>d_count := d_count de - 1\<rparr>) s"

lemmas vfs_access =
  get_dentry_def get_vinode_def SIMPLEFS_INODE_def deref_cache_def out_param_def

lemma SIMPLEFS_INODE_cong: "icache s' = icache s \<Longrightarrow> SIMPLEFS_INODE p s' = SIMPLEFS_INODE p s"
  by (cases p) (simp_all add: SIMPLEFS_INODE_def get_vinode_def)

lemmas vfs_update =
  upd_vinode_def upd_private_def upd_dentry_def inode_init_owner_def d_add_def dput_def

lemma calm_new_inode [calm_simps]:
  "calm e \<Longrightarrow> new_inode e s = (Some (next_inode s),
     s\<lparr>tick := Suc (tick s), icache := (icache s)(next_inode s := Some blank_inode), next_inode := Suc (next_inode s)\<rparr>)"
  by (simp add: new_inode_def calm_simps)

section \<open>Agreement of in-core inodes with the inode store\<close>

text \<open>\<open>in_sync s v nd\<close>: the in-core inode at address \<open>v\<close> has the private inode \<open>nd\<close>, which is the stored one.\<close>

definition in_sync :: "'a fsstate_scheme \<Rightarrow> nat \<Rightarrow> simplefs_inode \<Rightarrow> bool" where
  "in_sync s v nd \<longleftrightarrow>
     (\<exists>vi. icache s v = Some vi \<and> i_private vi = Some nd \<and> i_ino vi = inode_no nd) \<and>
     inode_of s (inode_no nd) = Some nd"

lemma in_sync_private: "in_sync s v nd \<Longrightarrow> SIMPLEFS_INODE (Some v) s = Done nd"
  by (auto simp: in_sync_def vfs_access)

text \<open>The data block of a stored inode is neither the super block nor the inode store, and its own.\<close>

lemma inode_of_block:
  assumes "fs_inv s" "inode_of s no = Some nd"
  shows "2 \<le> unat (data_block_number nd)" "unat (data_block_number nd) < 32"
    "data_block_number nd \<noteq> 0" "data_block_number nd \<noteq> 1"
proof -
  note no = inode_of_Some [OF assms]
  show "2 \<le> unat (data_block_number nd)" "unat (data_block_number nd) < 32"
    using no(1,2) assms(1) by (auto simp: fs_inv_def store_inv_def blocks_inv_def data_block_def)
  then show "data_block_number nd \<noteq> 0" "data_block_number nd \<noteq> 1" by auto
qed

lemma inode_of_block_inj:
  assumes "fs_inv s" "inode_of s no = Some nd" "inode_of s no' = Some nd'"
    and "data_block_number nd = data_block_number nd'"
  shows "no = no'"
proof -
  note a = inode_of_Some [OF assms(1,2)] and b = inode_of_Some [OF assms(1,3)]
  have "data_block (cache s 1) (unat (no - 1)) = data_block (cache s 1) (unat (no' - 1))"
    using assms(4) a(2) b(2) by (simp add: data_block_def)
  then have "unat (no - 1) = unat (no' - 1)"
    using assms(1) a(1) b(1) by (auto simp: fs_inv_def store_inv_def blocks_inv_def dest: inj_onD)
  then show ?thesis using a(6) b(6) by (metis word_unat_eq_iff)
qed

section \<open>A file system with one file\<close>

text \<open>The root directory holds the file \<open>a\<close>: inode 2 with data block 3; used by the witnesses of the operations.\<close>

definition root_inode :: simplefs_inode where
  "root_inode = \<lparr>mode = 0x4000, inode_no = 1, data_block_number = 2, isize = 1\<rparr>"

definition one_file :: fsstate where
  "one_file =
     \<lparr>cache = (\<lambda>n. if n = 1 then wr_inode 1 sample_inode (wr_inode 0 root_inode (\<lambda>_. 0))
                   else if n = 2 then new_record 0 [97] 2 (\<lambda>_. 0) else (\<lambda>_. 0)),
      disk = (\<lambda>_ _. 0), dirty = (\<lambda>_. False), refs = (\<lambda>_. 0), held = (\<lambda>_. False), tick = 0,
      sb_mem = \<lparr>version = 1, magic = SIMPLEFS_MAGIC, block_size = 4096, inodes_count = 2,
        free_blocks = NOT (push_bit 3 1)\<rparr>,
      imap = 7,
      icache = [0 \<mapsto> \<lparr>i_ino = 1, i_mode = 0x4000, i_fop = Some simplefs_dir_operations, i_time = 0,
                    i_private = Some root_inode\<rparr>,
                1 \<mapsto> \<lparr>i_ino = 2, i_mode = 0x8000, i_fop = Some simplefs_file_operations, i_time = 0,
                    i_private = Some sample_inode\<rparr>],
      next_inode = 2,
      dcache = [0 \<mapsto> \<lparr>d_inode = Some 0, d_parent = 0, d_name = [47], d_fsdata = None, d_count = 1\<rparr>,
                1 \<mapsto> \<lparr>d_inode = Some 1, d_parent = 0, d_name = [97], d_fsdata = None, d_count = 1\<rparr>,
                2 \<mapsto> \<lparr>d_inode = None, d_parent = 0, d_name = [98], d_fsdata = None, d_count = 1\<rparr>]\<rparr>"

lemma one_file_slots: "rd_inode i (cache one_file 1) =
    (if i = 0 then root_inode else if i = 1 then sample_inode else zero_inode)"
  by (simp add: one_file_def inodes.rd_wr_iff rd_inode_zero)

lemma bit_7_u64: "bit (7 :: u64) n \<longleftrightarrow> n = 0 \<or> n = 1 \<or> n = 2"
  by (cases n; cases "n - 1"; cases "n - 2") (auto simp: bit_Suc bit_0)

lemma one_file_free: "block_free (NOT (push_bit 3 1)) n \<longleftrightarrow> n \<noteq> 3"
proof -
  have "bit (NOT (push_bit 3 1) :: u64) 31" by (simp add: bit_simps)
  then show ?thesis
    unfolding block_free_def by (auto simp: bit_simps intro: exI [of _ 31])
qed

lemma one_file_inv: "idle_inv one_file"
proof -
  let ?b = "cache one_file 1"
  note rd = one_file_slots
  then have used: "slot_used ?b i \<longleftrightarrow> i = 0 \<or> i = 1" "used_slots ?b = {0, 1}" for i
    by (auto simp: slot_used_def used_slots_def root_inode_def sample_inode_def)
  have "store_inv ?b 7 2 (NOT (push_bit 3 1))"
    unfolding store_inv_def numbered_def imap_inv_def blocks_inv_def root_inv_def data_block_def used bit_7_u64
    by (auto simp: rd S_ISDIR_def one_file_free root_inode_def sample_inode_def)
  then show ?thesis
    by (simp add: idle_inv_def fs_inv_def unlocked_def) (simp add: one_file_def)
qed

lemma one_file_sync: "in_sync one_file 0 root_inode" "in_sync one_file 1 sample_inode"
proof -
  have "inode_of one_file 1 = Some root_inode" "inode_of one_file 2 = Some sample_inode"
    by (simp_all add: inode_of_def slot_used_def one_file_slots) (simp_all add: root_inode_def sample_inode_def)
  then show "in_sync one_file 0 root_inode" "in_sync one_file 1 sample_inode"
    by (simp_all add: in_sync_def) (simp_all add: one_file_def root_inode_def sample_inode_def)
qed

end
