(* ===== verification/Sfs_File_IO.thy ===== *)
theory Sfs_File_IO
  imports Sfs_Vfs
begin

text \<open>
  The file operations of \<open>simplefs/simple.c\<close>: \<open>simplefs_iterate\<close> (lines 394 to 450),
  \<open>simplefs_read\<close> (497 to 542) and \<open>simplefs_write\<close> (585 to 664).  An open file is the directory entry it
  was opened through; the file position \<open>*ppos\<close> is an argument and part of the result, a 64-bit
  word since the code compares and adds it as one.  The bytes a read copies to user space
  are part of its result.
\<close>

section \<open>Reading\<close>

text \<open>The variable \<open>nbytes\<close> is an \<open>int\<close>: the minimum is cut to 32 bits, and extended with its sign for the copy.\<close>

definition nbytes_int :: "u64 \<Rightarrow> u32" where
  "nbytes_int w = ucast w"

definition simplefs_read ::
    "kenv \<Rightarrow> nat \<Rightarrow> u64 \<Rightarrow> u64 \<Rightarrow> 'a fsstate_scheme \<Rightarrow> ((int \<times> bytes \<times> u64) \<times> 'a fsstate_scheme) outcome" where
  "simplefs_read e d len ppos s =
     bnd (get_dentry d s) (\<lambda>de.
     bnd (SIMPLEFS_INODE (d_inode de) s) (\<lambda>nd.
     if file_size nd \<le> ppos then Done ((0, [], ppos), s) else
     let (ok, s) = sb_bread e (data_block_number nd) s in
     if \<not> ok then Done ((0, [], ppos), s) else
     let nbytes = nbytes_int (min (file_size nd) len);
         n = unat (scast nbytes :: u64);
         (left, s) = user_copy e n s in
     bnd (guard (n - left \<le> BLOCK_SIZE) Out_of_bounds) (\<lambda>_.
     let copied = blk_read 0 (n - left) (cache s (data_block_number nd));
         s = brelse (data_block_number nd) s in
     if left \<noteq> 0 then Done ((- EFAULT, copied, ppos), s)
     else Done ((sint nbytes, copied, ppos + scast nbytes), s))))"

section \<open>Writing\<close>

text \<open>
  The user buffer is the list of its \<open>len\<close> bytes.  \<open>copy_from_user\<close> fills what it could not copy with
  zeros; it writes \<open>len\<close> bytes from the address \<open>b_data + *ppos\<close> on.
\<close>

definition simplefs_write ::
    "kenv \<Rightarrow> nat \<Rightarrow> bytes \<Rightarrow> u64 \<Rightarrow> 'a fsstate_scheme \<Rightarrow> ((int \<times> u64) \<times> 'a fsstate_scheme) outcome" where
  "simplefs_write e d buf ppos s =
     bnd (get_dentry d s) (\<lambda>de.
     bnd (SIMPLEFS_INODE (d_inode de) s) (\<lambda>nd.
     let blkno = data_block_number nd; len = length buf;
         (ok, s) = sb_bread e blkno s in
     if \<not> ok then Done ((0, ppos), s) else
     bnd (guard (len = 0 \<or> unat ppos + len \<le> BLOCK_SIZE) Out_of_bounds) (\<lambda>_.
     let (left, s) = user_copy e len s;
         s = set_data blkno (blk_write (unat ppos) (take (len - left) buf @ replicate left 0) (cache s blkno)) s in
     if left \<noteq> 0 then Done ((- EFAULT, ppos), brelse blkno s) else
     let ppos = ppos + of_nat len;
         s = mark_buffer_dirty blkno s;
         s = sync_dirty_buffer blkno s;
         s = brelse blkno s in
     bnd (mutex_lock_interruptible e simplefs_inodes_mgmt_lock s) (\<lambda>(interrupted, s).
     if interrupted then Done ((- EINTR, ppos), s) else
     let nd = nd\<lparr>isize := ppos\<rparr>;
         s = (case d_inode de of None \<Rightarrow> s | Some v \<Rightarrow> upd_private v nd s) in
     bnd (simplefs_inode_save e nd s) (\<lambda>(retval, s).
     bnd (mutex_unlock simplefs_inodes_mgmt_lock s) (\<lambda>s.
     Done ((if retval \<noteq> 0 then retval else int len, ppos), s)))))))"

section \<open>Listing a directory\<close>

text \<open>
  \<open>dir_emit\<close> is the kernel's: it hands a name of the given length and an inode number to the caller's
  buffer, and reports whether they fitted.  It is the parameter \<open>emit\<close> on buffers of any type; the
  code ignores its report.
\<close>

definition dir_cache_build_ptr ::
    "kenv \<Rightarrow> int + simplefs_dir_cache \<Rightarrow> blk \<Rightarrow> 'a kstate_scheme \<Rightarrow>
     ((int + simplefs_dir_cache) \<times> 'a kstate_scheme) outcome" where
  "dir_cache_build_ptr e p b s =
     (case p of
        Inr dc \<Rightarrow> (let (_, dc, s) = dir_cache_build e dc b s in Done (Inr dc, s))
      | Inl x \<Rightarrow> (let (ok, s) = alloc e s in if ok then Fault Bad_pointer else Done (Inl x, s)))"

fun emit_all ::
    "(bytes \<Rightarrow> u64 \<Rightarrow> 'c \<Rightarrow> bool \<times> 'c) \<Rightarrow> simplefs_cache_entry list \<Rightarrow> int \<Rightarrow> 'c \<Rightarrow> int \<times> 'c" where
  "emit_all emit [] pos ctx = (pos, ctx)"
| "emit_all emit (c # cs) pos ctx =
     (let (_, ctx) = emit (take SIMPLEFS_FILENAME_MAXLEN (filename (record_of c))) (rec_inode_no (record_of c)) ctx
      in emit_all emit cs (pos + int SIZEOF_DIR_RECORD) ctx)"

definition simplefs_iterate ::
    "kenv \<Rightarrow> (bytes \<Rightarrow> u64 \<Rightarrow> 'c \<Rightarrow> bool \<times> 'c) \<Rightarrow> nat \<Rightarrow> int \<Rightarrow> 'c \<Rightarrow> 'a fsstate_scheme \<Rightarrow>
     ((int \<times> int \<times> 'c) \<times> 'a fsstate_scheme) outcome" where
  "simplefs_iterate e emit d pos ctx s =
     bnd (get_dentry d s) (\<lambda>de.
     bnd (SIMPLEFS_INODE (d_inode de) s) (\<lambda>parent.
     bnd (case d_fsdata de of
            Some p \<Rightarrow> Done (p, s)
          | None \<Rightarrow>
              let (p, s) = simplefs_cache_alloc e s;
                  (ok, s) = sb_bread e (data_block_number parent) s in
              bnd (guard ok Bug_on) (\<lambda>_.
              bnd (dir_cache_build_ptr e p (cache s (data_block_number parent)) s) (\<lambda>(p, s).
              Done (p, brelse (data_block_number parent) s)))) (\<lambda>(p, s).
     let s = upd_dentry d (\<lambda>de. de\<lparr>d_fsdata := Some p\<rparr>) s in
     if pos \<noteq> 0 then Done ((0, pos, ctx), s) else
     bnd (deref_cache (Some p)) (\<lambda>dc.
     let (pos, ctx) = emit_all emit (used dc) pos ctx in
     Done ((0, pos, ctx), s)))))"

section \<open>Undisturbed execution\<close>

lemma nbytes_small:
  assumes "unat w < 2147483648"
  shows "scast (nbytes_int w) = w" "sint (nbytes_int w) = int (unat w)"
proof -
  have "take_bit 31 w = w"
    using assms by (simp add: word_unat_eq_iff unsigned_take_bit_eq take_bit_nat_eq_self)
  then have bits: "n < 31" if "bit w n" for n
    using that by (metis bit_take_bit_iff)
  show "scast (nbytes_int w) = w"
    using bits by (intro bit_eqI) (auto simp: nbytes_int_def bit_simps min_def dest: bits)
  have "bit (sint (nbytes_int w)) n \<longleftrightarrow> bit (int (unat w)) n" for n
    using bits [of n] bits [of 31]
    by (auto simp: nbytes_int_def bit_simps bit_sint_iff min_def)
  then show "sint (nbytes_int w) = int (unat w)" by (simp add: bit_eq_iff)
qed

lemma read_calm:
  assumes "calm e" "dcache s d = Some de" "SIMPLEFS_INODE (d_inode de) s = Done nd"
    and "ppos < file_size nd" "unat (min (file_size nd) len) \<le> BLOCK_SIZE"
  shows "simplefs_read e d len ppos s =
    Done ((int (unat (min (file_size nd) len)),
           blk_read 0 (unat (min (file_size nd) len)) (cache s (data_block_number nd)),
           ppos + min (file_size nd) len), s\<lparr>tick := tick s + 2\<rparr>)"
proof -
  have "unat (min (file_size nd) len) < 2147483648" using assms(5) by simp
  moreover have "\<not> file_size nd \<le> ppos" using assms(4) by simp
  ultimately show ?thesis
    using assms nbytes_small [of "min (file_size nd) len"]
    by (simp add: simplefs_read_def get_dentry_def calm_simps buffer_defs Let_def)
qed

lemma write_calm:
  assumes "calm e" "unlocked s" "dcache s d = Some de" "d_inode de = Some v"
    and "SIMPLEFS_INODE (Some v) s = Done nd" "data_block_number nd \<noteq> 1"
    and "unat ppos + length buf \<le> BLOCK_SIZE"
    and "simplefs_inode_search (cache s 1) (inode_no nd) 0 = Done (Some k)"
  shows "simplefs_write e d buf ppos s =
    (let p = ppos + of_nat (length buf); nd' = nd\<lparr>isize := p\<rparr>; n = data_block_number nd;
         b = blk_write (unat ppos) buf (cache s n); st = wr_inode k nd' (cache s 1) in
     Done ((int (length buf), p),
       s\<lparr>cache := (cache s)(n := b, 1 := st), disk := (disk s)(n := b, 1 := st),
         dirty := (dirty s)(n := False, 1 := False), tick := tick s + 5,
         icache := (icache s)(v := map_option (\<lambda>vi. vi\<lparr>i_private := Some nd'\<rparr>) (icache s v))\<rparr>))"
  using assms
  by (simp add: simplefs_write_def get_dentry_def calm_simps buffer_defs vfs_update Let_def)


section \<open>The effect of a write\<close>

text \<open>
  \<open>open_file s d v nd\<close>: the directory entry \<open>d\<close> is that of an existing object whose in-core inode at
  address \<open>v\<close> agrees with the inode store.
\<close>

definition open_file :: "'a fsstate_scheme \<Rightarrow> nat \<Rightarrow> nat \<Rightarrow> simplefs_inode \<Rightarrow> bool" where
  "open_file s d v nd \<longleftrightarrow> (\<exists>de. dcache s d = Some de \<and> d_inode de = Some v) \<and> in_sync s v nd"

lemma open_file_read:
  assumes "calm e" "open_file s d v nd" "ppos < file_size nd" "unat (min (file_size nd) len) \<le> BLOCK_SIZE"
  shows "simplefs_read e d len ppos s =
    Done ((int (unat (min (file_size nd) len)),
           blk_read 0 (unat (min (file_size nd) len)) (cache s (data_block_number nd)),
           ppos + min (file_size nd) len), s\<lparr>tick := tick s + 2\<rparr>)"
proof -
  obtain de where "dcache s d = Some de" "d_inode de = Some v" "in_sync s v nd"
    using assms(2) by (auto simp: open_file_def)
  then show ?thesis using read_calm [OF assms(1), of s d de nd ppos len] assms(3,4) by (simp add: in_sync_private)
qed

lemma in_sync_search:
  assumes "fs_inv s" "in_sync s v nd"
  shows "simplefs_inode_search (cache s 1) (inode_no nd) 0 = Done (Some (unat (inode_no nd - 1)))"
proof -
  have nd: "inode_of s (inode_no nd) = Some nd" using assms(2) by (simp add: in_sync_def)
  note no = inode_of_Some [OF assms(1) nd]
  show ?thesis using numbered_search [OF _ no(1)] assms(1) no(2) by (simp add: fs_inv_def store_inv_def)
qed

lemma write_effect:
  assumes "calm e" "idle_inv s" "open_file s d v nd" "unat ppos + length buf \<le> BLOCK_SIZE"
    and nd': "nd' = nd\<lparr>isize := ppos + of_nat (length buf)\<rparr>" and n: "n = data_block_number nd"
  shows "\<exists>s'. simplefs_write e d buf ppos s = Done ((int (length buf), isize nd'), s') \<and>
    idle_inv s' \<and> open_file s' d v nd' \<and> inode_of s' = (inode_of s)(inode_no nd \<mapsto> nd') \<and>
    cache s' n = blk_write (unat ppos) buf (cache s n) \<and> disk s' n = cache s' n \<and> disk s' 1 = cache s' 1 \<and>
    (\<forall>m. m \<noteq> 1 \<and> m \<noteq> n \<longrightarrow> cache s' m = cache s m \<and> disk s' m = disk s m) \<and>
    sb_mem s' = sb_mem s \<and> imap s' = imap s \<and> next_inode s' = next_inode s \<and> dcache s' = dcache s \<and>
    (\<forall>w. w \<noteq> v \<longrightarrow> icache s' w = icache s w)"
proof -
  obtain de where de: "dcache s d = Some de" "d_inode de = Some v" and sync: "in_sync s v nd"
    using assms(3) by (auto simp: open_file_def)
  have fs: "fs_inv s" and un: "unlocked s" using assms(2) by (simp_all add: idle_inv_def)
  have nd: "inode_of s (inode_no nd) = Some nd" using sync by (simp add: in_sync_def)
  note no = inode_of_Some [OF fs nd] and n1 = inode_of_block(4) [OF fs nd]
  let ?k = "unat (inode_no nd - 1)"
  let ?st = "wr_inode ?k nd' (cache s 1)"
  obtain s' where s': "simplefs_write e d buf ppos s = Done ((int (length buf), isize nd'), s')"
    and eq: "cache s' = (cache s)(n := blk_write (unat ppos) buf (cache s n), 1 := ?st)"
      "disk s' = (disk s)(n := blk_write (unat ppos) buf (cache s n), 1 := ?st)"
      "icache s' = (icache s)(v := map_option (\<lambda>vi. vi\<lparr>i_private := Some nd'\<rparr>) (icache s v))"
      "dcache s' = dcache s" "sb_mem s' = sb_mem s" "imap s' = imap s" "held s' = held s" "next_inode s' = next_inode s"
    using write_calm [OF assms(1) un de in_sync_private [OF sync] n1 assms(4) in_sync_search [OF fs sync]] nd' n
    by (simp add: Let_def)
  have c1: "cache s' 1 = ?st" and cn: "cache s' n = blk_write (unat ppos) buf (cache s n)" "disk s' n = cache s' n"
    using n1 n by (simp_all add: eq)
  have "store_inv ?st (imap s) (inodes_count (sb_mem s)) (free_blocks (sb_mem s))"
    using fs no nd' unfolding fs_inv_def by (intro store_inv_save [OF _ no(1)]) simp_all
  then have inv: "idle_inv s'"
    using un by (simp add: idle_inv_def fs_inv_def c1 eq unlocked_def)
  have look: "inode_of s' = (inode_of s)(inode_no nd \<mapsto> nd')"
    using no(4,5) by (rule inode_of_upd) (auto simp: c1 inodes.rd_wr_iff no(4) nd')
  then have "open_file s' d v nd'"
    using de sync nd' by (auto simp: open_file_def in_sync_def eq)
  then show ?thesis using s' inv look c1 cn by (auto simp: eq)
qed

section \<open>Listing\<close>

text \<open>The names and inode numbers \<open>dir_emit\<close> is called with for the records in use of a block.\<close>

definition dir_listing :: "blk \<Rightarrow> (bytes \<times> u64) list" where
  "dir_listing b = map (\<lambda>i. (take SIMPLEFS_FILENAME_MAXLEN (filename (rd_record i b)), rec_inode_no (rd_record i b)))
     (filter (is_used b) [0..<RECORDS_PER_BLOCK])"

text \<open>A buffer that takes at most \<open>k\<close> entries.\<close>

definition fill_dir :: "nat \<Rightarrow> bytes \<Rightarrow> u64 \<Rightarrow> (bytes \<times> u64) list \<Rightarrow> bool \<times> (bytes \<times> u64) list" where
  "fill_dir k name no xs = (if length xs < k then (True, xs @ [(name, no)]) else (False, xs))"

lemma emit_all_fill_dir:
  "length xs \<le> k \<Longrightarrow> emit_all (fill_dir k) (map (entry_at b) is) pos xs =
     (pos + int SIZEOF_DIR_RECORD * int (length is),
      xs @ take (k - length xs) (map (\<lambda>i. (take SIMPLEFS_FILENAME_MAXLEN (filename (rd_record i b)),
        rec_inode_no (rd_record i b))) is))"
proof (induction "is" arbitrary: pos xs)
  case Nil
  then show ?case by simp
next
  case (Cons i "is")
  show ?case
  proof (cases "length xs < k")
    case True
    then show ?thesis
      using Cons.IH [of "xs @ [(take SIMPLEFS_FILENAME_MAXLEN (filename (rd_record i b)), rec_inode_no (rd_record i b))]"]
      by (simp add: fill_dir_def take_Cons' Suc_diff_Suc [symmetric] algebra_simps)
  next
    case False
    then show ?thesis using Cons by (simp add: fill_dir_def algebra_simps)
  qed
qed

lemma length_dir_listing: "length (dir_listing b) = length (filter (is_used b) [0..<RECORDS_PER_BLOCK])"
  by (simp add: dir_listing_def del: upt_rec_numeral)

lemma emit_all_listing:
  assumes "cache_ok dc b"
  shows "emit_all (fill_dir k) (used dc) pos [] =
    (pos + int SIZEOF_DIR_RECORD * int (length (dir_listing b)), take k (dir_listing b))"
proof -
  have "used dc = map (entry_at b) (filter (is_used b) [0..<RECORDS_PER_BLOCK])"
    using assms by (simp add: cache_ok_def used_entries_def)
  then show ?thesis
    by (simp add: emit_all_fill_dir length_dir_listing dir_listing_def del: upt_rec_numeral)
qed

text \<open>The first listing of a directory builds its cache, later ones use it.\<close>

lemma iterate_builds:
  assumes "calm e" "dcache s d = Some de" "SIMPLEFS_INODE (d_inode de) s = Done nd" "d_fsdata de = None"
  shows "\<exists>dc. cache_ok dc (cache s (data_block_number nd)) \<and>
    simplefs_iterate e emit d pos ctx s =
      (let s' = s\<lparr>tick := tick s + 17, dcache := (dcache s)(d \<mapsto> de\<lparr>d_fsdata := Some (Inr dc)\<rparr>)\<rparr> in
       if pos \<noteq> 0 then Done ((0, pos, ctx), s')
       else let (pos', ctx') = emit_all emit (used dc) pos ctx in Done ((0, pos', ctx'), s'))"
proof -
  let ?b = "cache s (data_block_number nd)"
  let ?s = "s\<lparr>refs := (refs s)(data_block_number nd := Suc (refs s (data_block_number nd))), tick := tick s + 2\<rparr>"
  obtain dc where dc: "cache_ok dc ?b"
    "dir_cache_build e \<lparr>cached_children_count = 0, used = [], free = []\<rparr> ?b ?s = (0, dc, ?s\<lparr>tick := tick ?s + 15\<rparr>)"
    using dir_cache_build_calm [OF assms(1) refl] by blast
  then have "simplefs_iterate e emit d pos ctx s =
      (let s' = s\<lparr>tick := tick s + 17, dcache := (dcache s)(d \<mapsto> de\<lparr>d_fsdata := Some (Inr dc)\<rparr>)\<rparr> in
       if pos \<noteq> 0 then Done ((0, pos, ctx), s')
       else let (pos', ctx') = emit_all emit (used dc) pos ctx in Done ((0, pos', ctx'), s'))"
    using assms
    by (simp add: simplefs_iterate_def get_dentry_def simplefs_cache_alloc_def calm_simps dir_cache_build_ptr_def
        buffer_defs deref_cache_def upd_dentry_def Let_def add.commute)
  then show ?thesis using dc(1) by blast
qed

lemma iterate_cached:
  assumes "dcache s d = Some de" "SIMPLEFS_INODE (d_inode de) s = Done nd" "d_fsdata de = Some (Inr dc)"
  shows "simplefs_iterate e emit d pos ctx s =
    (if pos \<noteq> 0 then Done ((0, pos, ctx), s)
     else let (pos', ctx') = emit_all emit (used dc) pos ctx in Done ((0, pos', ctx'), s))"
proof -
  have "s\<lparr>dcache := (dcache s)(d \<mapsto> de\<lparr>d_fsdata := Some (Inr dc)\<rparr>)\<rparr> = s"
    using assms(1,3) by (cases de) (simp add: fun_upd_idem)
  then show ?thesis
    using assms by (simp add: simplefs_iterate_def get_dentry_def deref_cache_def upd_dentry_def)
qed

section \<open>Properties\<close>

text \<open>C2: what is written is read back.  For an open file of an idle file system with the invariant and a write
  that stays inside the block, \<open>simplefs_write\<close> returns the length and advances the position; a
  following read from the start returns the old bytes before the position and then exactly the bytes
  written, and ends there.  The data and the inode with its new size are on the device, the invariant
  holds, and no other block, inode or lock is changed.\<close>

theorem write_read_roundtrip:
  assumes "calm e" "idle_inv s" "open_file s d v nd" "unat ppos + length buf \<le> BLOCK_SIZE" "buf \<noteq> []"
    and "unat ppos + length buf \<le> unat len"
  shows "\<exists>s' s''. simplefs_write e d buf ppos s = Done ((int (length buf), ppos + of_nat (length buf)), s') \<and>
    simplefs_read e d len 0 s' =
      Done ((int (unat ppos + length buf), blk_read 0 (unat ppos) (cache s (data_block_number nd)) @ buf,
             ppos + of_nat (length buf)), s'') \<and>
    idle_inv s' \<and> open_file s' d v (nd\<lparr>isize := ppos + of_nat (length buf)\<rparr>) \<and>
    inode_of s' = (inode_of s)(inode_no nd \<mapsto> nd\<lparr>isize := ppos + of_nat (length buf)\<rparr>) \<and>
    disk s' (data_block_number nd) = cache s' (data_block_number nd) \<and> disk s' 1 = cache s' 1 \<and>
    (\<forall>m. m \<noteq> 1 \<and> m \<noteq> data_block_number nd \<longrightarrow> cache s' m = cache s m \<and> disk s' m = disk s m)"
proof -
  let ?p = "ppos + of_nat (length buf)" and ?n = "data_block_number nd"
  obtain s' where s': "simplefs_write e d buf ppos s = Done ((int (length buf), ?p), s')"
    "idle_inv s'" "open_file s' d v (nd\<lparr>isize := ?p\<rparr>)" "inode_of s' = (inode_of s)(inode_no nd \<mapsto> nd\<lparr>isize := ?p\<rparr>)"
    and c: "cache s' ?n = blk_write (unat ppos) buf (cache s ?n)"
    and d: "disk s' ?n = cache s' ?n" "disk s' 1 = cache s' 1"
      "\<forall>m. m \<noteq> 1 \<and> m \<noteq> ?n \<longrightarrow> cache s' m = cache s m \<and> disk s' m = disk s m"
    using write_effect [OF assms(1-4) refl refl] by auto
  have p: "unat ?p = unat ppos + length buf" using assms(4) by (simp add: unat_word_ariths unat_of_nat)
  have "0 < ?p" using p assms(5) by (simp add: word_less_nat_alt)
  moreover have "min ?p len = ?p" using p assms(6) by (simp add: min_def word_le_nat_alt)
  moreover have "blk_read 0 (unat ppos + length buf) (cache s' ?n) = blk_read 0 (unat ppos) (cache s ?n) @ buf"
    by (auto simp: c list_eq_iff_nth_eq blk_write_def nth_append)
  ultimately have "simplefs_read e d len 0 s' =
      Done ((int (unat ppos + length buf), blk_read 0 (unat ppos) (cache s ?n) @ buf, ?p), s'\<lparr>tick := tick s' + 2\<rparr>)"
    using open_file_read [OF assms(1) s'(3), of 0 len] p assms(4) by simp
  then show ?thesis using s' d by blast
qed

lemma one_file_open: "open_file one_file 1 1 sample_inode"
  using one_file_sync by (simp add: open_file_def) (simp add: one_file_def)

theorem write_read_roundtrip_witness:
  "\<exists>s' s''. simplefs_write quiet_env 1 [104, 105] 0 one_file = Done ((2, 2), s') \<and>
    simplefs_read quiet_env 1 10 0 s' = Done ((2, [104, 105], 2), s'')"
  using write_read_roundtrip [OF calm_quiet_env(1) one_file_inv one_file_open, of 0 "[104, 105]" 10] by auto

text \<open>C23: \<open>simplefs_read\<close> ignores the file position.  At any position inside the file it returns the first
  bytes of the file, not those at the position, so a program that reads a file in pieces receives the
  beginning of the file over and over.\<close>

theorem read_ignores_offset:
  assumes "calm e" "open_file s d v nd" "ppos < file_size nd" "unat (file_size nd) \<le> BLOCK_SIZE"
  shows "\<exists>ppos' s'. simplefs_read e d len ppos s =
    Done ((int (unat (min (file_size nd) len)),
           take (unat len) (blk_read 0 (unat (file_size nd)) (cache s (data_block_number nd))), ppos'), s')"
proof -
  have "unat (min (file_size nd) len) = min (unat len) (unat (file_size nd))"
    by (auto simp: min_def word_le_nat_alt)
  then show ?thesis using open_file_read [OF assms(1-3), of len] assms(4) by simp
qed

theorem read_ignores_offset_witness:
  "\<exists>s s' ppos' s''. simplefs_write quiet_env 1 [104, 105] 0 one_file = Done ((2, 2), s) \<and>
    simplefs_read quiet_env 1 1 1 s = Done ((1, [104], ppos'), s'')"
proof -
  obtain s where s: "simplefs_write quiet_env 1 [104, 105] 0 one_file = Done ((2, 2), s)"
    "open_file s 1 1 (sample_inode\<lparr>isize := 2\<rparr>)" "cache s 3 = blk_write 0 [104, 105] (cache one_file 3)"
    using write_effect [OF calm_quiet_env(1) one_file_inv one_file_open _ refl refl, of 0 "[104, 105]"]
    by (auto simp: sample_inode_def)
  have "blk_read 0 2 (cache s 3) = [104, 105]" by (simp add: s(3) blk_simps)
  then show ?thesis
    using read_ignores_offset [OF calm_quiet_env(1) s(2), of 1 1] s(1) by (auto simp: sample_inode_def)
qed

text \<open>\<open>simplefs_write\<close> does not check the size of the block: a write of at least one byte that would pass
  offset 4096 overruns the buffer instead of failing with \<open>-ENOSPC\<close>.\<close>

theorem write_past_block:
  assumes "\<not> io_fails e (tick s)" "open_file s d v nd" "buf \<noteq> []" "BLOCK_SIZE < unat ppos + length buf"
  shows "simplefs_write e d buf ppos s = Fault Out_of_bounds"
proof -
  obtain de where "dcache s d = Some de" "d_inode de = Some v" "in_sync s v nd"
    using assms(2) by (auto simp: open_file_def)
  then show ?thesis
    using assms(1,3,4) by (simp add: simplefs_write_def get_dentry_def in_sync_private sb_bread_def Let_def)
qed

theorem write_past_block_witness:
  "simplefs_write quiet_env 1 [0] 4096 one_file = Fault Out_of_bounds"
  by (rule write_past_block [OF _ one_file_open]) (simp_all add: quiet_env_def)

text \<open>A write interrupted by a signal reports failure although it has happened.  If the signal arrives while
  \<open>simplefs_write\<close> waits for \<open>simplefs_inodes_mgmt_lock\<close>, the result is \<open>-EINTR\<close>, but the data
  is on the device and the position has moved; only the size of the file is not updated.\<close>

theorem write_interrupted:
  assumes "\<not> io_fails e (tick s)" "uncopied e (tick s + 1) = 0" "intr e (tick s + 2)"
    and "open_file s d v nd" "unat ppos + length buf \<le> BLOCK_SIZE"
  shows "\<exists>s'. simplefs_write e d buf ppos s = Done ((- EINTR, ppos + of_nat (length buf)), s') \<and>
    disk s' (data_block_number nd) = blk_write (unat ppos) buf (cache s (data_block_number nd)) \<and>
    icache s' = icache s"
proof -
  obtain de where "dcache s d = Some de" "d_inode de = Some v" "in_sync s v nd"
    using assms(4) by (auto simp: open_file_def)
  then show ?thesis
    using assms(1-3,5)
    by (simp add: simplefs_write_def get_dentry_def in_sync_private sb_bread_def user_copy_def
        interrupted_lock buffer_defs Let_def)
qed

theorem write_interrupted_witness:
  "\<exists>s'. simplefs_write (quiet_env\<lparr>intr := (\<lambda>n. n = 2)\<rparr>) 1 [104] 0 one_file = Done ((- EINTR, 1), s') \<and>
    disk s' 3 = blk_write 0 [104] (\<lambda>_. 0)"
proof -
  have "cache one_file 3 = (\<lambda>_. 0)" by (simp add: one_file_def)
  then show ?thesis
    using write_interrupted [OF _ _ _ one_file_open, of "quiet_env\<lparr>intr := (\<lambda>n. n = 2)\<rparr>" 0 "[104]"]
    by (auto simp: quiet_env_def one_file_def sample_inode_def)
qed

text \<open>C18: listing a directory.  The first listing of a directory from position 0 into a buffer with room returns 0
  and every record in use, in the order of the data block, with its inode number; it leaves a directory
  cache that agrees with the block.  A second listing from position 0 returns the same.\<close>

theorem iterate_lists_directory:
  assumes "calm e" "dcache s d = Some de" "SIMPLEFS_INODE (d_inode de) s = Done nd" "d_fsdata de = None"
    and "RECORDS_PER_BLOCK \<le> k"
  shows "\<exists>dc s'. simplefs_iterate e (fill_dir k) d 0 [] s =
      Done ((0, 264 * int (length (dir_listing (cache s (data_block_number nd)))),
             dir_listing (cache s (data_block_number nd))), s') \<and>
    dcache s' d = Some (de\<lparr>d_fsdata := Some (Inr dc)\<rparr>) \<and> cache_ok dc (cache s' (data_block_number nd)) \<and>
    cache s' = cache s \<and>
    simplefs_iterate e (fill_dir k) d 0 [] s' =
      Done ((0, 264 * int (length (dir_listing (cache s (data_block_number nd)))),
             dir_listing (cache s (data_block_number nd))), s')"
proof -
  let ?b = "cache s (data_block_number nd)"
  obtain dc where dc: "cache_ok dc ?b" and it: "simplefs_iterate e (fill_dir k) d 0 [] s =
      (let s' = s\<lparr>tick := tick s + 17, dcache := (dcache s)(d \<mapsto> de\<lparr>d_fsdata := Some (Inr dc)\<rparr>)\<rparr> in
       let (pos', ctx') = emit_all (fill_dir k) (used dc) 0 [] in Done ((0, pos', ctx'), s'))"
    using iterate_builds [OF assms(1-4), of "fill_dir k" 0 "[]"] by auto
  let ?s = "s\<lparr>tick := tick s + 17, dcache := (dcache s)(d \<mapsto> de\<lparr>d_fsdata := Some (Inr dc)\<rparr>)\<rparr>"
  have "length (dir_listing ?b) \<le> k"
    using length_filter_le [of "is_used ?b" "[0..<RECORDS_PER_BLOCK]"] assms(5) by (simp add: length_dir_listing del: upt_rec_numeral)
  then have emit: "emit_all (fill_dir k) (used dc) 0 [] = (264 * int (length (dir_listing ?b)), dir_listing ?b)"
    using emit_all_listing [OF dc, of k 0] by simp
  have "SIMPLEFS_INODE (d_inode de) ?s = Done nd" using assms(3) SIMPLEFS_INODE_cong [of ?s s] by simp
  then have "simplefs_iterate e (fill_dir k) d 0 [] ?s = Done ((0, 264 * int (length (dir_listing ?b)), dir_listing ?b), ?s)"
    using iterate_cached [of ?s d "de\<lparr>d_fsdata := Some (Inr dc)\<rparr>" nd dc e "fill_dir k" 0 "[]"] emit by simp
  then show ?thesis using it emit dc by (intro exI [of _ dc] exI [of _ ?s]) (simp add: Let_def)
qed

lemma one_file_root: "dcache one_file 0 = Some \<lparr>d_inode = Some 0, d_parent = 0, d_name = [47], d_fsdata = None, d_count = 1\<rparr>"
  by (simp add: one_file_def)

theorem iterate_lists_directory_witness:
  "\<exists>s'. simplefs_iterate quiet_env (fill_dir 20) 0 0 [] one_file =
      Done ((0, 264 * int (length (dir_listing (cache one_file 2))), dir_listing (cache one_file 2)), s')"
  using iterate_lists_directory [OF calm_quiet_env(1) one_file_root, of root_inode 20] in_sync_private [OF one_file_sync(1)]
  by (auto simp: root_inode_def)

text \<open>C24: entries that do not fit are lost.  When the caller's buffer takes only \<open>k\<close> entries, \<open>simplefs_iterate\<close>
  ignores the failure of \<open>dir_emit\<close> and moves the position past all of them; the call that should
  continue at that position returns nothing, so the remaining entries are never listed.\<close>

theorem iterate_loses_entries:
  assumes "calm e" "dcache s d = Some de" "SIMPLEFS_INODE (d_inode de) s = Done nd" "d_fsdata de = None"
    and "k < length (dir_listing (cache s (data_block_number nd)))"
  shows "\<exists>pos s'. simplefs_iterate e (fill_dir k) d 0 [] s =
      Done ((0, pos, take k (dir_listing (cache s (data_block_number nd)))), s') \<and>
    (\<forall>k'. simplefs_iterate e (fill_dir k') d pos [] s' = Done ((0, pos, []), s'))"
proof -
  let ?b = "cache s (data_block_number nd)" and ?de = "\<lambda>dc. de\<lparr>d_fsdata := Some (Inr dc)\<rparr>"
  obtain dc where dc: "cache_ok dc ?b" and it: "simplefs_iterate e (fill_dir k) d 0 [] s =
      (let s' = s\<lparr>tick := tick s + 17, dcache := (dcache s)(d \<mapsto> ?de dc)\<rparr> in
       let (pos', ctx') = emit_all (fill_dir k) (used dc) 0 [] in Done ((0, pos', ctx'), s'))"
    using iterate_builds [OF assms(1-4), of "fill_dir k" 0 "[]"] by auto
  let ?s = "s\<lparr>tick := tick s + 17, dcache := (dcache s)(d \<mapsto> ?de dc)\<rparr>"
  have pos: "264 * int (length (dir_listing ?b)) \<noteq> 0" using assms(5) by auto
  have "SIMPLEFS_INODE (d_inode de) ?s = Done nd" using assms(3) SIMPLEFS_INODE_cong [of ?s s] by simp
  then have "simplefs_iterate e (fill_dir k') d (264 * int (length (dir_listing ?b))) [] ?s =
      Done ((0, 264 * int (length (dir_listing ?b)), []), ?s)" for k'
    using iterate_cached [of ?s d "?de dc" nd dc e "fill_dir k'" "264 * int (length (dir_listing ?b))" "[]"] pos
    by simp
  then show ?thesis using it emit_all_listing [OF dc, of k 0] by (simp add: Let_def)
qed

lemma one_file_listing: "length (dir_listing (cache one_file 2)) = 1"
proof -
  have "is_used (cache one_file 2) i \<longleftrightarrow> i = 0" for i
    using new_record_facts(1) [OF name_a, of 2 _ 0 "\<lambda>_. 0" i] by (simp add: one_file_def)
  then have "is_used (cache one_file 2) = (\<lambda>i. i = 0)" by blast
  moreover have "filter (\<lambda>i. i = 0) [0..<RECORDS_PER_BLOCK] = [0]" by code_simp
  ultimately have "filter (is_used (cache one_file 2)) [0..<RECORDS_PER_BLOCK] = [0]" by metis
  then show ?thesis by (simp add: length_dir_listing)
qed

theorem iterate_loses_entries_witness:
  "\<exists>pos s'. simplefs_iterate quiet_env (fill_dir 0) 0 0 [] one_file = Done ((0, pos, []), s') \<and>
    (\<forall>k'. simplefs_iterate quiet_env (fill_dir k') 0 pos [] s' = Done ((0, pos, []), s'))"
proof -
  have "0 < length (dir_listing (cache one_file (data_block_number root_inode)))"
    using one_file_listing by (simp add: root_inode_def)
  from iterate_loses_entries [OF calm_quiet_env(1) one_file_root _ _ this] show ?thesis
    using in_sync_private [OF one_file_sync(1)] by auto
qed

end
