(* ===== verification/Sfs_Namespace.thy ===== *)
theory Sfs_Namespace
  imports Sfs_Vfs
begin

text \<open>
  The operations of \<open>simplefs/simple.c\<close> on names: \<open>simplefs_create_fs_object\<close> with \<open>simplefs_mkdir\<close> and
  \<open>simplefs_create\<close>, \<open>simplefs_unlink\<close>, \<open>simplefs_lookup\<close>, and the release of an inode and of a
  directory entry (lines 680 to 1065).  The handlers take the address of the directory's in-core
  inode and of the directory entry, as the virtual file system passes them.
\<close>

section \<open>Operations\<close>

text \<open>\<open>mutex_unlock(l); return ret;\<close>\<close>

definition unlock_return :: "mutex \<Rightarrow> int \<Rightarrow> 'a kstate_scheme \<Rightarrow> (int \<times> 'a kstate_scheme) outcome" where
  "unlock_return l ret s = bnd (mutex_unlock l s) (\<lambda>s. Done (ret, s))"

text \<open>
  \<open>simplefs_create_fs_object\<close> in four parts: the checks under the directory lock (lines 733 to 756), the
  new in-core inode with its private inode (758 to 792), the record in the parent's data block (813 to
  840), and the parent's new count (842 to 862).  The data block number of the private inode is not
  set before the allocation of the block; the model has 0 there.
\<close>

definition create_checks :: "kenv \<Rightarrow> u16 \<Rightarrow> 'a fsstate_scheme \<Rightarrow> (int \<times> 'a fsstate_scheme) outcome" where
  "create_checks e m s =
     bnd (simplefs_sb_get_objects_count e s) (\<lambda>((ret, out), s).
     if ret < 0 then Done (ret, s) else
     bnd (out_param out) (\<lambda>count.
     if 64 \<le> count then Done (- ENOSPC, s)
     else if \<not> S_ISDIR m \<and> \<not> S_ISREG m then Done (- EINVAL, s)
     else Done (0, s)))"

definition create_inode ::
    "kenv \<Rightarrow> u16 \<Rightarrow> 'a fsstate_scheme \<Rightarrow> ((nat \<times> simplefs_inode) option \<times> 'a fsstate_scheme) outcome" where
  "create_inode e m s =
     (let (p, s) = new_inode e s in
      case p of
        None \<Rightarrow> Done (None, s)
      | Some v \<Rightarrow>
          let (now, s) = current_time e s in
          bnd (ffz (imap s)) (\<lambda>ino.
          let (ok, s) = alloc e s in
          bnd (guard ok Null_deref) (\<lambda>_.
          let fop = (if S_ISDIR m then Some simplefs_dir_operations
                     else if S_ISREG m then Some simplefs_file_operations else None);
              nd = \<lparr>mode = ucast m, inode_no = of_nat ino, data_block_number = 0, isize = 0\<rparr> in
          Done (Some (v, nd),
            upd_vinode v (\<lambda>vi. vi\<lparr>i_ino := of_nat ino, i_time := now, i_fop := fop, i_private := Some nd\<rparr>) s))))"

definition create_record ::
    "kenv \<Rightarrow> nat \<Rightarrow> nat \<Rightarrow> bytes \<Rightarrow> u64 \<Rightarrow> 'a fsstate_scheme \<Rightarrow> (simplefs_inode \<times> 'a fsstate_scheme) outcome" where
  "create_record e dir pdentry name no s =
     bnd (get_dentry pdentry s) (\<lambda>pd.
     bnd (deref_cache (d_fsdata pd)) (\<lambda>dc.
     let co = free_cache_entry_get dc in
     bnd (SIMPLEFS_INODE (Some dir) s) (\<lambda>parent.
     let n = data_block_number parent;
         (ok, s) = sb_bread e n s in
     bnd (guard ok Bug_on) (\<lambda>_.
     bnd (dir_add_entry name no co dc (cache s n)) (\<lambda>(dc, b).
     let s = set_data n b s;
         s = upd_dentry pdentry (\<lambda>pd. pd\<lparr>d_fsdata := Some (Inr dc)\<rparr>) s;
         s = mark_buffer_dirty n s;
         s = sync_dirty_buffer n s in
     Done (parent, brelse n s))))))"

definition create_count ::
    "kenv \<Rightarrow> nat \<Rightarrow> simplefs_inode \<Rightarrow> 'a fsstate_scheme \<Rightarrow> (int \<times> 'a fsstate_scheme) outcome" where
  "create_count e dir parent s =
     bnd (mutex_lock_interruptible e simplefs_inodes_mgmt_lock s) (\<lambda>(interrupted, s).
     if interrupted then unlock_return simplefs_directory_children_update_lock (- EINTR) s else
     let parent = parent\<lparr>isize := dir_children_count parent + 1\<rparr>;
         s = upd_private dir parent s in
     bnd (simplefs_inode_save e parent s) (\<lambda>(ret, s).
     bnd (mutex_unlock simplefs_inodes_mgmt_lock s) (\<lambda>s.
     unlock_return simplefs_directory_children_update_lock ret s)))"

definition simplefs_create_fs_object ::
    "kenv \<Rightarrow> nat \<Rightarrow> nat \<Rightarrow> u16 \<Rightarrow> 'a fsstate_scheme \<Rightarrow> (int \<times> 'a fsstate_scheme) outcome" where
  "simplefs_create_fs_object e dir d m s =
     bnd (get_dentry d s) (\<lambda>de.
     bnd (get_dentry (d_parent de) s) (\<lambda>pd.
     bnd (guard (d_inode pd = Some dir) Bug_on) (\<lambda>_.
     bnd (guard (d_fsdata pd \<noteq> None) Bug_on) (\<lambda>_.
     bnd (mutex_lock_interruptible e simplefs_directory_children_update_lock s) (\<lambda>(interrupted, s).
     if interrupted then Done (- EINTR, s) else
     bnd (create_checks e m s) (\<lambda>(ret, s).
     if ret \<noteq> 0 then unlock_return simplefs_directory_children_update_lock ret s else
     bnd (create_inode e m s) (\<lambda>(p, s).
     case p of
       None \<Rightarrow> unlock_return simplefs_directory_children_update_lock (- ENOMEM) s
     | Some (v, nd) \<Rightarrow>
         bnd (simplefs_sb_get_a_freeblock e s) (\<lambda>((ret, out), s).
         if ret < 0 then unlock_return simplefs_directory_children_update_lock ret s else
         bnd (out_param out) (\<lambda>blk.
         let nd = nd\<lparr>data_block_number := blk\<rparr>;
             s = upd_private v nd s in
         bnd (simplefs_inode_add e nd s) (\<lambda>s.
         bnd (create_record e dir (d_parent de) (d_name de) (inode_no nd) s) (\<lambda>(parent, s).
         bnd (create_count e dir parent s) (\<lambda>(ret, s).
         if ret \<noteq> 0 then Done (ret, s) else
         bnd (get_vinode (Some dir) s) (\<lambda>dvi.
         let s = inode_init_owner e v (Some (i_mode dvi)) m s;
             s = d_add d (Some v) s in
         Done (0, s))))))))))))))"

definition simplefs_mkdir ::
    "kenv \<Rightarrow> nat \<Rightarrow> nat \<Rightarrow> u16 \<Rightarrow> 'a fsstate_scheme \<Rightarrow> (int \<times> 'a fsstate_scheme) outcome" where
  "simplefs_mkdir e dir d m s = simplefs_create_fs_object e dir d (S_IFDIR OR m) s"

definition simplefs_create ::
    "kenv \<Rightarrow> nat \<Rightarrow> nat \<Rightarrow> u16 \<Rightarrow> bool \<Rightarrow> 'a fsstate_scheme \<Rightarrow> (int \<times> 'a fsstate_scheme) outcome" where
  "simplefs_create e dir d m excl s = simplefs_create_fs_object e dir d m s"

text \<open>
  \<open>simplefs_unlink\<close>.  The result of \<open>simplefs_inode_save\<close> is not looked at; \<open>__destroy_inode\<close> releases
  kernel resources of the in-core inode that are not part of the model.
\<close>

definition simplefs_unlink ::
    "kenv \<Rightarrow> nat \<Rightarrow> nat \<Rightarrow> 'a fsstate_scheme \<Rightarrow> (int \<times> 'a fsstate_scheme) outcome" where
  "simplefs_unlink e dir d s =
     bnd (get_dentry d s) (\<lambda>de.
     bnd (get_dentry (d_parent de) s) (\<lambda>pd.
     bnd (SIMPLEFS_INODE (d_inode de) s) (\<lambda>nd.
     bnd (SIMPLEFS_INODE (Some dir) s) (\<lambda>parent.
     let n = data_block_number parent;
         (ok, s) = sb_bread e n s in
     bnd (guard ok Null_deref) (\<lambda>_.
     bnd (deref_cache (d_fsdata pd)) (\<lambda>dc.
     bnd (dir_remove_entry (d_name de) dc (cache s n)) (\<lambda>(dc, b).
     let s = set_data n b s;
         s = mark_buffer_dirty n s;
         s = sync_dirty_buffer n s;
         s = brelse n s;
         s = upd_dentry (d_parent de) (\<lambda>pd. pd\<lparr>d_fsdata := Some (Inr dc)\<rparr>) s;
         parent = parent\<lparr>isize := dir_children_count parent - 1\<rparr>;
         s = upd_private dir parent s in
     bnd (simplefs_inode_save e parent s) (\<lambda>(ret, s).
     bnd (simplefs_inode_del e nd s) (\<lambda>s.
     Done (0, dput d s))))))))))"

text \<open>\<open>simplefs_lookup\<close> returns NULL, here 0, or an error pointer, here the error.\<close>

definition simplefs_lookup ::
    "kenv \<Rightarrow> nat \<Rightarrow> nat \<Rightarrow> 'a fsstate_scheme \<Rightarrow> (int \<times> 'a fsstate_scheme) outcome" where
  "simplefs_lookup e dir d s =
     bnd (get_dentry d s) (\<lambda>de.
     bnd (get_dentry (d_parent de) s) (\<lambda>pd.
     if d_inode pd \<noteq> Some dir then Done (- ENOENT, s) else
     bnd (deref_cache (d_fsdata pd)) (\<lambda>dc.
     case used_cache_entry_get dc (d_name de) of
       None \<Rightarrow> Done (0, s)
     | Some c \<Rightarrow>
         bnd (simplefs_get_inode e (rec_inode_no (record_of c)) s) (\<lambda>(p, s).
         case p of
           None \<Rightarrow> Done (- ENOENT, s)
         | Some nd \<Rightarrow>
             let (q, s) = new_inode e s in
             case q of
               None \<Rightarrow> Fault Null_deref
             | Some v \<Rightarrow>
                 bnd (get_vinode (Some dir) s) (\<lambda>dvi.
                 let s = upd_vinode v (\<lambda>vi. vi\<lparr>i_ino := rec_inode_no (record_of c)\<rparr>) s;
                     s = inode_init_owner e v (Some (i_mode dvi)) (ucast (mode nd)) s in
                 bnd (get_vinode (Some v) s) (\<lambda>vi.
                 let fop = (if S_ISDIR (i_mode vi) then Some simplefs_dir_operations
                            else if S_ISREG (i_mode vi) then Some simplefs_file_operations else i_fop vi);
                     (now, s) = current_time e s;
                     s = upd_vinode v (\<lambda>vi. vi\<lparr>i_fop := fop, i_time := now, i_private := Some nd\<rparr>) s in
                 Done (0, d_add d (Some v) s)))))))"

text \<open>\<open>simplefs_destory_inode\<close> frees the private inode, and nothing else; without one, it frees through NULL.\<close>

definition simplefs_destory_inode :: "nat \<Rightarrow> 'a fsstate_scheme \<Rightarrow> 'a fsstate_scheme outcome" where
  "simplefs_destory_inode v s =
     bnd (SIMPLEFS_INODE (Some v) s) (\<lambda>_.
     Done (upd_vinode v (\<lambda>vi. vi\<lparr>i_private := None\<rparr>) s))"

text \<open>\<open>simplefs_dentry_release\<close>, with the entry objects it frees in the order it frees them.\<close>

fun free_entries :: "simplefs_cache_entry list \<Rightarrow> simplefs_cache_entry list \<Rightarrow> simplefs_cache_entry list" where
  "free_entries freed [] = freed"
| "free_entries freed (c # cs) = free_entries (freed @ [c]) cs"

definition simplefs_dentry_release ::
    "nat \<Rightarrow> 'a fsstate_scheme \<Rightarrow> (simplefs_cache_entry list \<times> 'a fsstate_scheme) outcome" where
  "simplefs_dentry_release d s =
     bnd (get_dentry d s) (\<lambda>de.
     bnd (if d_fsdata de \<noteq> None
          then bnd (deref_cache (d_fsdata de)) (\<lambda>dc. Done (free_entries (free_entries [] (free dc)) (used dc)))
          else Done []) (\<lambda>freed.
     Done (freed, upd_dentry d (\<lambda>de. de\<lparr>d_fsdata := None\<rparr>) s)))"

section \<open>Undisturbed execution\<close>

lemma create_checks_calm:
  assumes "calm e" "\<not> held s simplefs_inodes_mgmt_lock" "inodes_count (sb_mem s) < 64" "S_ISDIR m \<or> S_ISREG m"
  shows "create_checks e m s = Done (0, s\<lparr>tick := Suc (tick s)\<rparr>)"
  using assms by (auto simp: create_checks_def calm_simps out_param_def linorder_not_le)

definition created_inode :: "kenv \<Rightarrow> u16 \<Rightarrow> nat \<Rightarrow> nat \<Rightarrow> simplefs_inode \<Rightarrow> vinode" where
  "created_inode e m now ino nd =
     \<lparr>i_ino = of_nat ino, i_mode = 0,
      i_fop = (if S_ISDIR m then Some simplefs_dir_operations
               else if S_ISREG m then Some simplefs_file_operations else None),
      i_time = now, i_private = Some nd\<rparr>"

lemma create_inode_calm:
  assumes "calm e" "ffz (imap s) = Done ino"
    and "nd = \<lparr>mode = ucast m, inode_no = of_nat ino, data_block_number = 0, isize = 0\<rparr>"
  shows "create_inode e m s = Done (Some (next_inode s, nd),
     s\<lparr>tick := tick s + 3,
       icache := (icache s)(next_inode s \<mapsto> created_inode e m (clock e (Suc (tick s))) ino nd),
       next_inode := Suc (next_inode s)\<rparr>)"
  using assms
  by (simp add: create_inode_def calm_simps current_time_def upd_vinode_def blank_inode_def created_inode_def Let_def)

lemma create_record_calm:
  assumes "calm e" "dcache s p = Some pd" "d_fsdata pd = Some (Inr dc)" "SIMPLEFS_INODE (Some dir) s = Done parent"
    and "n = data_block_number parent"
    and "dir_add_entry name no (free_cache_entry_get dc) dc (cache s n) = Done (dc', b')"
  shows "create_record e dir p name no s = Done (parent,
     s\<lparr>cache := (cache s)(n := b'), disk := (disk s)(n := b'), dirty := (dirty s)(n := False),
       tick := Suc (tick s), dcache := (dcache s)(p \<mapsto> pd\<lparr>d_fsdata := Some (Inr dc')\<rparr>)\<rparr>)"
  using assms
  by (simp add: create_record_def calm_simps get_dentry_def deref_cache_def buffer_defs upd_dentry_def Let_def)

lemma create_count_calm:
  assumes "calm e" "\<not> held s simplefs_inodes_mgmt_lock" "\<not> held s simplefs_sb_lock"
    and "held s simplefs_directory_children_update_lock"
    and "simplefs_inode_search (cache s 1) (inode_no parent) 0 = Done (Some k)"
    and "parent' = parent\<lparr>isize := isize parent + 1\<rparr>"
  shows "create_count e dir parent s = Done (0,
     s\<lparr>cache := (cache s)(1 := wr_inode k parent' (cache s 1)), disk := (disk s)(1 := wr_inode k parent' (cache s 1)),
       dirty := (dirty s)(1 := False), held := (held s)(simplefs_directory_children_update_lock := False),
       tick := tick s + 3,
       icache := (icache s)(dir := map_option (\<lambda>vi. vi\<lparr>i_private := Some parent'\<rparr>) (icache s dir))\<rparr>)"
  using assms
  by (simp add: create_count_def calm_simps unlock_return_def upd_private_def upd_vinode_def Let_def)

text \<open>
  \<open>open_dir s p v nd dc\<close>: the directory entry \<open>p\<close> is that of a directory whose in-core inode at address \<open>v\<close> agrees
  with the inode store, and whose cache \<open>dc\<close> agrees with its data block.
\<close>

definition open_dir :: "'a fsstate_scheme \<Rightarrow> nat \<Rightarrow> nat \<Rightarrow> simplefs_inode \<Rightarrow> simplefs_dir_cache \<Rightarrow> bool" where
  "open_dir s p v nd dc \<longleftrightarrow>
     (\<exists>pd. dcache s p = Some pd \<and> d_inode pd = Some v \<and> d_fsdata pd = Some (Inr dc)) \<and>
     in_sync s v nd \<and> dir_inv (dc, cache s (data_block_number nd))"

lemma Suc_u64:
  assumes "Suc k < 64"
  shows "unat (of_nat (Suc k) :: u64) = Suc k" "unat (of_nat (Suc k) - 1 :: u64) = k" "(of_nat (Suc k) :: u64) \<noteq> 0"
proof -
  show k: "unat (of_nat (Suc k) :: u64) = Suc k" using assms by (simp del: of_nat_Suc)
  then show "(of_nat (Suc k) :: u64) \<noteq> 0" by (metis unat_0 nat.distinct(1))
  then show "unat (of_nat (Suc k) - 1 :: u64) = k" using k by (metis diff_Suc_1 unat_pred)
qed

lemma create_calm:
  assumes "calm e" "unlocked s" "dcache s d = Some de" "d_parent de = p" "d \<noteq> p"
    and pd: "dcache s p = Some pd" "d_inode pd = Some dir" "d_fsdata pd = Some (Inr dc)"
    and dir: "icache s dir = Some vi" "i_private vi = Some pnd" "dir \<noteq> next_inode s"
    and m: "inodes_count (sb_mem s) < 64" "S_ISDIR m \<or> S_ISREG m"
    and ino: "ffz (imap s) = Done (Suc k)" "Suc k < 64"
    and fb: "lowest_free (free_blocks (sb_mem s)) j"
    and nd: "nd = \<lparr>mode = ucast m, inode_no = of_nat (Suc k), data_block_number = of_nat j, isize = 0\<rparr>"
    and n: "n = data_block_number pnd" "n \<noteq> 0" "n \<noteq> 1"
    and add: "dir_add_entry (d_name de) (of_nat (Suc k)) (free_cache_entry_get dc) dc (cache s n) = Done (dc', b')"
    and sr: "simplefs_inode_search (wr_inode k nd (cache s 1)) (inode_no pnd) 0 = Done (Some kp)"
    and pnd': "pnd' = pnd\<lparr>isize := isize pnd + 1\<rparr>"
    and sb: "sb = (sb_mem s)\<lparr>free_blocks := free_blocks (sb_mem s) AND int_to_u64 (NOT (push_bit j 1)),
         inodes_count := inodes_count (sb_mem s) + 1\<rparr>"
    and st: "st = wr_inode kp pnd' (wr_inode k nd (cache s 1))"
    and b0: "b0 = wr_super sb (wr_super ((sb_mem s)\<lparr>free_blocks := free_blocks sb\<rparr>) (cache s 0))"
  shows "\<exists>s'. simplefs_create_fs_object e dir d m s = Done (0, s') \<and>
     cache s' = (cache s)(0 := b0, n := b', 1 := st) \<and> disk s' = (disk s)(0 := b0, n := b', 1 := st) \<and>
     sb_mem s' = sb \<and>
     imap s' = imap s OR push_bit (Suc k) 1 \<and> held s' = held s \<and> next_inode s' = Suc (next_inode s) \<and>
     icache s' = (icache s)(dir \<mapsto> vi\<lparr>i_private := Some pnd'\<rparr>,
       next_inode s \<mapsto> (created_inode e m (clock e (Suc (Suc (Suc (tick s))))) (Suc k) nd)\<lparr>i_mode := owner_mode e (Some (i_mode vi)) m\<rparr>) \<and>
     dcache s' = (dcache s)(p \<mapsto> pd\<lparr>d_fsdata := Some (Inr dc')\<rparr>, d \<mapsto> de\<lparr>d_inode := Some (next_inode s)\<rparr>)"
proof -
  show ?thesis
    using assms(1-5) pd dir m ino fb n add sr Suc_u64(1,2) [OF ino(2)]
    by (simp add: simplefs_create_fs_object_def calm_simps create_checks_calm create_inode_calm
        create_record_calm create_count_calm vfs_access vfs_update created_inode_def Let_def
        nd pnd' sb st b0 fun_upd_twist del: of_nat_Suc)
qed

section \<open>The effect of a creation\<close>

text \<open>In a state with the invariant there is always a free inode number, and the count is far below its bound.\<close>

lemma store_inv_count_small: "store_inv b m c fb \<Longrightarrow> c < 64"
  using card_used_slots_le [of b fb] by (auto simp: store_inv_def word_less_nat_alt)

lemma inode_of_create:
  assumes "fs_inv s" "inode_of s (inode_no pnd) = Some pnd" "k \<notin> used_slots (cache s 1)" "Suc k < 64"
    and "inode_no nd = of_nat (Suc k)" "pnd' = pnd\<lparr>isize := i\<rparr>"
    and "cache s' 1 = wr_inode (unat (inode_no pnd - 1)) pnd' (wr_inode k nd (cache s 1))"
  shows "inode_of s' = (inode_of s)(of_nat (Suc k) \<mapsto> nd, inode_no pnd \<mapsto> pnd')"
proof -
  note no = inode_of_Some [OF assms(1,2)]
  note k = Suc_u64 [OF assms(4)]
  define t where "t = s\<lparr>cache := (cache s)(1 := wr_inode k nd (cache s 1))\<rparr>"
  have "inode_of t = (inode_of s)(of_nat (Suc k) \<mapsto> nd)"
    using k(3) by (rule inode_of_upd) (use k assms(4,5) in \<open>auto simp: t_def inodes.rd_wr_iff simp del: of_nat_Suc\<close>)
  moreover have "inode_of s' = (inode_of t)(inode_no pnd \<mapsto> pnd')"
    using no(4,5) by (rule inode_of_upd) (use assms(6,7) no(4) in \<open>auto simp: t_def inodes.rd_wr_iff\<close>)
  ultimately show ?thesis by simp
qed

text \<open>
  The hypotheses of a creation: \<open>p\<close> is an open directory with a free record, \<open>d\<close> is a directory entry below it
  whose name is not in the directory, a data block is free, and the addresses from \<open>next_inode\<close> on are unused.
\<close>

definition can_create :: "'a fsstate_scheme \<Rightarrow> nat \<Rightarrow> nat \<Rightarrow> simplefs_inode \<Rightarrow> simplefs_dir_cache \<Rightarrow> nat \<Rightarrow> dentry \<Rightarrow> bool" where
  "can_create s p dir pnd dc d de \<longleftrightarrow>
     open_dir s p dir pnd dc \<and> dcache s d = Some de \<and> d_parent de = p \<and> d \<noteq> p \<and> name_ok (d_name de) \<and>
     dir_lookup (dc, cache s (data_block_number pnd)) (d_name de) = None \<and> free dc \<noteq> [] \<and>
     (\<exists>k. 3 \<le> k \<and> k < 32 \<and> block_free (free_blocks (sb_mem s)) k) \<and> (\<forall>v \<ge> next_inode s. icache s v = None)"

text \<open>What a creation does to the inode store: the new inode in slot \<open>k\<close>, then the parent with its new count.\<close>

lemma create_store:
  assumes st: "store_inv b m c fb" and k: "Suc k < 64" "\<not> bit m (Suc k)" "k \<notin> used_slots b"
    and j: "lowest_free fb j"
    and nd: "inode_no nd = of_nat (Suc k)" "data_block_number nd = of_nat j"
    and kp: "kp \<in> used_slots b" "rd_inode kp b = pnd" and pnd': "pnd' = pnd\<lparr>isize := i\<rparr>"
  shows "simplefs_inode_search (wr_inode k nd b) (inode_no pnd) 0 = Done (Some kp)"
    and "store_inv (wr_inode kp pnd' (wr_inode k nd b)) (m OR push_bit (Suc k) 1) (c + 1)
      (fb AND int_to_u64 (NOT (push_bit j 1)))"
proof -
  let ?b1 = "wr_inode k nd b" and ?fb = "fb AND int_to_u64 (NOT (push_bit j 1))"
  have j': "3 \<le> j" "j < 32" "block_free fb j" using j by (simp_all add: lowest_free_def)
  have jfree: "\<forall>i \<in> used_slots b. data_block b i \<noteq> j"
    using st j' by (auto simp: store_inv_def blocks_inv_def)
  have "store_inv b m c ?fb"
    by (rule store_inv_clear_free [OF st]) (simp add: block_free_clear_mask j')
  then have st1: "store_inv ?b1 (m OR push_bit (Suc k) 1) (c + 1) ?fb"
    using k j' jfree nd Suc_u64(1) [OF k(1)]
    by (intro store_inv_add [where d = j]) (simp_all add: block_free_clear_mask del: of_nat_Suc)
  have "kp \<noteq> k" using kp(1) k(3) by auto
  then have kp1: "kp \<in> used_slots ?b1" "rd_inode kp ?b1 = pnd"
    using kp nd(1) Suc_u64(3) [OF k(1)] by (auto simp: used_slots_def inodes.rd_wr_iff)
  then show "simplefs_inode_search ?b1 (inode_no pnd) 0 = Done (Some kp)"
    using numbered_search [OF _ kp1(1)] st1 by (simp add: store_inv_def)
  show "store_inv (wr_inode kp pnd' ?b1) (m OR push_bit (Suc k) 1) (c + 1) ?fb"
    using kp1 pnd' by (intro store_inv_save [OF st1]) simp_all
qed

text \<open>The number \<open>ffz\<close> finds in the bitmap is the lowest that no inode has.\<close>

lemma ffz_lowest_unused:
  assumes "fs_inv s" "ffz (imap s) = Done (Suc k)" "m \<noteq> 0" "m < of_nat (Suc k)"
  shows "inode_of s m \<noteq> None"
proof -
  have k: "Suc k < 64" "\<forall>i < Suc k. bit (imap s) i" using ffz_Done [OF assms(2)] by auto
  have lt: "unat m < Suc k" using assms(4) Suc_u64(1) [OF k(1)] by (simp add: word_less_nat_alt del: of_nat_Suc)
  have eq: "unat m = Suc (unat (m - 1))"
    using assms(3) by (simp add: unat_pred unat_eq_0 [symmetric] del: unat_eq_0)
  then have "slot_used (cache s 1) (unat (m - 1))"
    using assms(1) k lt by (auto simp: fs_inv_def store_inv_def imap_inv_def)
  then show ?thesis using assms(3) lt k(1) by (simp add: inode_of_def)
qed

definition created ::
    "simplefs_inode \<Rightarrow> simplefs_inode \<Rightarrow> nat \<Rightarrow> nat \<Rightarrow> nat \<Rightarrow> 'a fsstate_scheme \<Rightarrow> 'a fsstate_scheme \<Rightarrow> bool" where
  "created nd pnd p dir d s s' \<longleftrightarrow>
     inode_of s' = (inode_of s)(inode_no nd \<mapsto> nd, inode_no pnd \<mapsto> pnd\<lparr>isize := isize pnd + 1\<rparr>) \<and>
     rd_super (disk s' 0) = sb_mem s' \<and> disk s' 1 = cache s' 1 \<and>
     disk s' (data_block_number pnd) = cache s' (data_block_number pnd) \<and>
     (\<forall>b. b \<noteq> 0 \<and> b \<noteq> 1 \<and> b \<noteq> data_block_number pnd \<longrightarrow> cache s' b = cache s b \<and> disk s' b = disk s b) \<and>
     (\<forall>w. w \<noteq> dir \<and> w \<noteq> next_inode s \<longrightarrow> icache s' w = icache s w) \<and>
     (\<forall>w. w \<noteq> d \<and> w \<noteq> p \<longrightarrow> dcache s' w = dcache s w) \<and>
     next_inode s' = Suc (next_inode s) \<and>
     (\<forall>w \<ge> next_inode s'. icache s w = None \<longrightarrow> icache s' w = None) \<and>
     free_blocks (sb_mem s') =
       free_blocks (sb_mem s) AND int_to_u64 (NOT (push_bit (unat (data_block_number nd)) 1))"

text \<open>What the hypotheses of a creation give: the parent, the number and the block that will be chosen, the new directory.\<close>

lemma can_create_context:
  assumes "idle_inv s" and cc: "can_create s p dir pnd dc d de" and n: "n = data_block_number pnd"
  obtains pd vi k j dc' b' where
    "unlocked s" "store_inv (cache s 1) (imap s) (inodes_count (sb_mem s)) (free_blocks (sb_mem s))"
    "dcache s d = Some de" "d_parent de = p" "d \<noteq> p"
    "dcache s p = Some pd" "d_inode pd = Some dir" "d_fsdata pd = Some (Inr dc)"
    "icache s dir = Some vi" "i_private vi = Some pnd" "i_ino vi = inode_no pnd" "dir < next_inode s" "dir \<noteq> next_inode s"
    "inode_of s (inode_no pnd) = Some pnd" "n \<noteq> 0" "n \<noteq> 1"
    "ffz (imap s) = Done (Suc k)" "Suc k < 64" "\<not> bit (imap s) (Suc k)" "k \<notin> used_slots (cache s 1)"
    "lowest_free (free_blocks (sb_mem s)) j"
    "dir_add_entry (d_name de) (of_nat (Suc k)) (free_cache_entry_get dc) dc (cache s n) = Done (dc', b')"
    "dir_inv (dc', b')" "Suc (length (free dc')) = length (free dc)"
    "\<forall>y. name_ok y \<longrightarrow> dir_lookup (dc', b') y =
       (if y = d_name de then Some (of_nat (Suc k)) else dir_lookup (dc, cache s n) y)"
proof -
  have fs: "fs_inv s" and un: "unlocked s" using assms(1) by (simp_all add: idle_inv_def)
  then have st: "store_inv (cache s 1) (imap s) (inodes_count (sb_mem s)) (free_blocks (sb_mem s))"
    by (simp add: fs_inv_def)
  obtain pd where pd: "dcache s p = Some pd" "d_inode pd = Some dir" "d_fsdata pd = Some (Inr dc)"
    and sync: "in_sync s dir pnd" and dinv: "dir_inv (dc, cache s n)"
    and de: "dcache s d = Some de" "d_parent de = p" "d \<noteq> p" "name_ok (d_name de)"
    and fresh: "dir_lookup (dc, cache s n) (d_name de) = None" "free dc \<noteq> []"
    and blk: "\<exists>k. 3 \<le> k \<and> k < 32 \<and> block_free (free_blocks (sb_mem s)) k"
    and heap: "\<forall>v \<ge> next_inode s. icache s v = None"
    using cc n by (auto simp: can_create_def open_dir_def)
  obtain vi where vi: "icache s dir = Some vi" "i_private vi = Some pnd" "i_ino vi = inode_no pnd"
    and look: "inode_of s (inode_no pnd) = Some pnd"
    using sync by (auto simp: in_sync_def)
  have ndir: "dir < next_inode s" using vi heap by (metis linorder_not_le option.distinct(1))
  then have ndir': "dir \<noteq> next_inode s" by simp
  obtain k where k: "ffz (imap s) = Done (Suc k)" "Suc k < 64" "\<not> bit (imap s) (Suc k)" "k \<notin> used_slots (cache s 1)"
    using store_inv_ffz [OF st] by blast
  obtain j where j: "lowest_free (free_blocks (sb_mem s)) j" using blk lowest_free_ex by blast
  obtain dc' b' where add: "dir_add_entry (d_name de) (of_nat (Suc k)) (free_cache_entry_get dc) dc (cache s n) = Done (dc', b')"
    "dir_inv (dc', b')" "Suc (length (free dc')) = length (free dc)"
    "\<forall>y. name_ok y \<longrightarrow> dir_lookup (dc', b') y =
       (if y = d_name de then Some (of_nat (Suc k)) else dir_lookup (dc, cache s n) y)"
    using dir.add_new [OF dinv de(4) Suc_u64(3) [OF k(2)] fresh(1)] fresh(2)
    by (auto simp: dir_room_def dir_add_def simp del: of_nat_Suc)
  show thesis
    by (rule that [OF un st de(1-3) pd vi ndir ndir' look inode_of_block(3,4) [OF fs look, folded n] k j add])
qed

lemma create_run:
  assumes "calm e" "idle_inv s" and cc: "can_create s p dir pnd dc d de" and m: "S_ISDIR m \<or> S_ISREG m"
    and n: "n = data_block_number pnd" and pnd': "pnd' = pnd\<lparr>isize := isize pnd + 1\<rparr>"
  obtains k j nd dc' b' b0 vi pd s' where
    "simplefs_create_fs_object e dir d m s = Done (0, s')"
    "ffz (imap s) = Done (Suc k)" "Suc k < 64" "k \<notin> used_slots (cache s 1)" "lowest_free (free_blocks (sb_mem s)) j"
    "nd = \<lparr>mode = ucast m, inode_no = of_nat (Suc k), data_block_number = of_nat j, isize = 0\<rparr>"
    "dir_inv (dc', b')" "Suc (length (free dc')) = length (free dc)"
    "\<forall>y. name_ok y \<longrightarrow> dir_lookup (dc', b') y =
       (if y = d_name de then Some (of_nat (Suc k)) else dir_lookup (dc, cache s n) y)"
    "store_inv (wr_inode (unat (inode_no pnd - 1)) pnd' (wr_inode k nd (cache s 1)))
       (imap s') (inodes_count (sb_mem s')) (free_blocks (sb_mem s'))"
    "cache s' = (cache s)(0 := b0, n := b', 1 := wr_inode (unat (inode_no pnd - 1)) pnd' (wr_inode k nd (cache s 1)))"
    "disk s' = (disk s)(0 := b0, n := b', 1 := wr_inode (unat (inode_no pnd - 1)) pnd' (wr_inode k nd (cache s 1)))"
    "rd_super b0 = sb_mem s'" "held s' = held s" "next_inode s' = Suc (next_inode s)"
    "free_blocks (sb_mem s') = free_blocks (sb_mem s) AND int_to_u64 (NOT (push_bit j 1))"
    "icache s dir = Some vi" "i_ino vi = inode_no pnd" "dir < next_inode s"
    "dcache s p = Some pd" "d_inode pd = Some dir"
    "icache s' = (icache s)(dir \<mapsto> vi\<lparr>i_private := Some pnd'\<rparr>,
       next_inode s \<mapsto> (created_inode e m (clock e (Suc (Suc (Suc (tick s))))) (Suc k) nd)
         \<lparr>i_mode := owner_mode e (Some (i_mode vi)) m\<rparr>)"
    "dcache s' = (dcache s)(p \<mapsto> pd\<lparr>d_fsdata := Some (Inr dc')\<rparr>, d \<mapsto> de\<lparr>d_inode := Some (next_inode s)\<rparr>)"
proof -
  have fs: "fs_inv s" using assms(2) by (simp add: idle_inv_def)
  show thesis
  proof (rule can_create_context [OF assms(2) cc n])
    fix pd vi k j dc' b'
    assume un: "unlocked s" and st: "store_inv (cache s 1) (imap s) (inodes_count (sb_mem s)) (free_blocks (sb_mem s))"
      and de: "dcache s d = Some de" "d_parent de = p" "d \<noteq> p"
      and pd: "dcache s p = Some pd" "d_inode pd = Some dir" "d_fsdata pd = Some (Inr dc)"
      and vi: "icache s dir = Some vi" "i_private vi = Some pnd" "i_ino vi = inode_no pnd"
      and ndir: "dir < next_inode s" "dir \<noteq> next_inode s" and look: "inode_of s (inode_no pnd) = Some pnd"
      and blkno: "n \<noteq> 0" "n \<noteq> 1"
      and k: "ffz (imap s) = Done (Suc k)" "Suc k < 64" "\<not> bit (imap s) (Suc k)" "k \<notin> used_slots (cache s 1)"
      and j: "lowest_free (free_blocks (sb_mem s)) j"
      and add: "dir_add_entry (d_name de) (of_nat (Suc k)) (free_cache_entry_get dc) dc (cache s n) = Done (dc', b')"
      and d': "dir_inv (dc', b')" "Suc (length (free dc')) = length (free dc)"
        "\<forall>y. name_ok y \<longrightarrow> dir_lookup (dc', b') y =
         (if y = d_name de then Some (of_nat (Suc k)) else dir_lookup (dc, cache s n) y)"
    note no = inode_of_Some [OF fs look]
    define nd where "nd = \<lparr>mode = ucast m, inode_no = of_nat (Suc k), data_block_number = of_nat j, isize = 0 :: u64\<rparr>"
    have nd: "inode_no nd = of_nat (Suc k)" "data_block_number nd = of_nat j" by (simp_all add: nd_def)
    note store = create_store [OF st k(2-4) j nd no(1,2) pnd']
    define sb where "sb = (sb_mem s)\<lparr>free_blocks := free_blocks (sb_mem s) AND int_to_u64 (NOT (push_bit j 1)),
           inodes_count := inodes_count (sb_mem s) + 1\<rparr>"
    define b0 where "b0 = wr_super sb (wr_super ((sb_mem s)\<lparr>free_blocks := free_blocks sb\<rparr>) (cache s 0))"
    have b0: "rd_super b0 = sb" by (simp add: b0_def blk_simps)
    show thesis
      using create_calm [OF assms(1) un de pd vi(1,2) ndir(2) store_inv_count_small [OF st] m k(1,2) j nd_def
        n blkno add store(1) pnd' sb_def refl b0_def]
        that [OF _ k(1,2,4) j nd_def d' _ _ _ _ _ _ _ vi(1,3) ndir(1) pd(1,2)] store(2) b0 by (auto simp: sb_def)
  qed
qed

lemma create_effect:
  assumes "calm e" "idle_inv s" and cc: "can_create s p dir pnd dc d de" and m: "S_ISDIR m \<or> S_ISREG m"
  shows "\<exists>no j nd dc' s'. simplefs_create_fs_object e dir d m s = Done (0, s') \<and> idle_inv s' \<and>
    inode_of s no = None \<and> (\<forall>m. m \<noteq> 0 \<and> m < no \<longrightarrow> inode_of s m \<noteq> None) \<and> lowest_free (free_blocks (sb_mem s)) j \<and>
    nd = \<lparr>mode = ucast m, inode_no = no, data_block_number = of_nat j, isize = 0\<rparr> \<and>
    created nd pnd p dir d s s' \<and>
    dcache s' d = Some (de\<lparr>d_inode := Some (next_inode s)\<rparr>) \<and> in_sync s' (next_inode s) nd \<and>
    open_dir s' p dir (pnd\<lparr>isize := isize pnd + 1\<rparr>) dc' \<and> Suc (length (free dc')) = length (free dc) \<and>
    (\<forall>y. name_ok y \<longrightarrow> dir_lookup (dc', cache s' (data_block_number pnd)) y =
       (if y = d_name de then Some no else dir_lookup (dc, cache s (data_block_number pnd)) y))"
proof -
  let ?n = "data_block_number pnd" and ?pnd = "pnd\<lparr>isize := isize pnd + 1\<rparr>"
  have fs: "fs_inv s" and un: "unlocked s" using assms(2) by (simp_all add: idle_inv_def)
  have look: "inode_of s (inode_no pnd) = Some pnd" and dp: "d \<noteq> p"
    using cc by (auto simp: can_create_def open_dir_def in_sync_def)
  note blkno = inode_of_block(3,4) [OF fs look]
  obtain k j nd dc' b' b0 vi pd s' where run: "simplefs_create_fs_object e dir d m s = Done (0, s')"
    and ffz: "ffz (imap s) = Done (Suc k)" and k: "Suc k < 64" "k \<notin> used_slots (cache s 1)" and j: "lowest_free (free_blocks (sb_mem s)) j"
    and nd: "nd = \<lparr>mode = ucast m, inode_no = of_nat (Suc k), data_block_number = of_nat j, isize = 0\<rparr>"
    and d': "dir_inv (dc', b')" "Suc (length (free dc')) = length (free dc)"
      "\<forall>y. name_ok y \<longrightarrow> dir_lookup (dc', b') y =
       (if y = d_name de then Some (of_nat (Suc k)) else dir_lookup (dc, cache s ?n) y)"
    and st: "store_inv (wr_inode (unat (inode_no pnd - 1)) ?pnd (wr_inode k nd (cache s 1)))
       (imap s') (inodes_count (sb_mem s')) (free_blocks (sb_mem s'))"
    and c: "cache s' = (cache s)(0 := b0, ?n := b', 1 := wr_inode (unat (inode_no pnd - 1)) ?pnd (wr_inode k nd (cache s 1)))"
      "disk s' = (disk s)(0 := b0, ?n := b', 1 := wr_inode (unat (inode_no pnd - 1)) ?pnd (wr_inode k nd (cache s 1)))"
    and misc: "rd_super b0 = sb_mem s'" "held s' = held s" "next_inode s' = Suc (next_inode s)"
      "free_blocks (sb_mem s') = free_blocks (sb_mem s) AND int_to_u64 (NOT (push_bit j 1))"
    and vi: "icache s dir = Some vi" "i_ino vi = inode_no pnd" "dir < next_inode s" "dcache s p = Some pd" "d_inode pd = Some dir"
    and vs: "icache s' = (icache s)(dir \<mapsto> vi\<lparr>i_private := Some ?pnd\<rparr>,
       next_inode s \<mapsto> (created_inode e m (clock e (Suc (Suc (Suc (tick s))))) (Suc k) nd)
         \<lparr>i_mode := owner_mode e (Some (i_mode vi)) m\<rparr>)"
      "dcache s' = (dcache s)(p \<mapsto> pd\<lparr>d_fsdata := Some (Inr dc')\<rparr>, d \<mapsto> de\<lparr>d_inode := Some (next_inode s)\<rparr>)"
    by (rule create_run [OF assms refl refl])
  have c1: "cache s' 1 = wr_inode (unat (inode_no pnd - 1)) ?pnd (wr_inode k nd (cache s 1))"
    and cn: "cache s' ?n = b'" using blkno by (simp_all add: c)
  have inv: "idle_inv s'" using st un by (simp add: idle_inv_def fs_inv_def c1 unlocked_def misc)
  have nd1: "inode_no nd = of_nat (Suc k)" by (simp add: nd)
  have look1: "inode_of s' = (inode_of s)(of_nat (Suc k) \<mapsto> nd, inode_no pnd \<mapsto> ?pnd)"
    by (rule inode_of_create [OF fs look k(2,1) nd1 refl c1])
  have none: "inode_of s (of_nat (Suc k)) = None"
    using k Suc_u64 [OF k(1)] by (simp add: inode_of_def used_slots_def del: of_nat_Suc)
  then have neq: "inode_no pnd \<noteq> of_nat (Suc k)" using look by auto
  have "in_sync s' (next_inode s) nd"
    using look1 neq by (simp add: in_sync_def vs created_inode_def nd1 del: of_nat_Suc)
  moreover have "open_dir s' p dir ?pnd dc'"
    using dp d'(1) cn look1 vi by (simp add: open_dir_def in_sync_def vs)
  moreover have "unat (data_block_number nd) = j" using j by (simp add: nd lowest_free_def)
  then have "created nd pnd p dir d s s'"
    using look1 misc blkno vi by (auto simp: created_def c vs nd1)
  ultimately show ?thesis
    using run inv none ffz_lowest_unused [OF fs ffz] j d'(2,3) cn
    by (intro exI [of _ "of_nat (Suc k)"] exI [of _ j] exI [of _ nd] exI [of _ dc'] exI [of _ s'])
      (simp add: vs nd del: of_nat_Suc)
qed

section \<open>The effect of a deletion\<close>

lemma unlink_calm:
  assumes "calm e" "unlocked s" "dcache s d = Some de" "d_parent de = p" "d \<noteq> p"
    and "dcache s p = Some pd" "d_fsdata pd = Some (Inr dc)"
    and "d_inode de = Some v" "SIMPLEFS_INODE (Some v) s = Done nd" "SIMPLEFS_INODE (Some dir) s = Done pnd"
    and "n = data_block_number pnd" "n \<noteq> 0" "n \<noteq> 1"
    and "dir_remove_entry (d_name de) dc (cache s n) = Done (dc', b')"
    and "simplefs_inode_search (cache s 1) (inode_no pnd) 0 = Done (Some kp)"
    and k: "unat (inode_no nd - 1) = k" "k < INODES_PER_BLOCK" "unat (inode_no nd) < 64"
    and pnd': "pnd' = pnd\<lparr>isize := isize pnd - 1\<rparr>"
    and sb: "sb = (sb_mem s)\<lparr>inodes_count := inodes_count (sb_mem s) - 1\<rparr>"
    and b1: "b1 = wr_inode kp pnd' (cache s 1)" and b0: "b0 = wr_super sb (cache s 0)"
  shows "\<exists>s'. simplefs_unlink e dir d s = Done (0, s') \<and>
     cache s' = (cache s)(n := b', 1 := clr_inode k b1, 0 := b0) \<and> disk s' = (disk s)(n := b', 1 := b1, 0 := b0) \<and>
     sb_mem s' = sb \<and> imap s' = imap s AND NOT (push_bit (unat (inode_no nd)) 1) \<and> held s' = held s \<and>
     next_inode s' = next_inode s \<and>
     icache s' = (icache s)(dir := map_option (\<lambda>vi. vi\<lparr>i_private := Some pnd'\<rparr>) (icache s dir)) \<and>
     dcache s' = (dcache s)(p \<mapsto> pd\<lparr>d_fsdata := Some (Inr dc')\<rparr>, d \<mapsto> de\<lparr>d_count := d_count de - 1\<rparr>)"
  using assms(1-15) k
  by (simp add: simplefs_unlink_def calm_simps get_dentry_def deref_cache_def vfs_update buffer_defs Let_def
      pnd' sb b1 b0 fun_upd_twist)

text \<open>
  The hypotheses of a deletion: \<open>p\<close> is an open directory, \<open>d\<close> the directory entry below it of an
  existing object other than the root, under whose name the directory has the object's number.
\<close>

definition can_unlink ::
    "'a fsstate_scheme \<Rightarrow> nat \<Rightarrow> nat \<Rightarrow> simplefs_inode \<Rightarrow> simplefs_dir_cache \<Rightarrow> nat \<Rightarrow> dentry \<Rightarrow> nat \<Rightarrow> simplefs_inode \<Rightarrow> bool" where
  "can_unlink s p dir pnd dc d de v nd \<longleftrightarrow>
     open_dir s p dir pnd dc \<and> dcache s d = Some de \<and> d_parent de = p \<and> d \<noteq> p \<and> name_ok (d_name de) \<and>
     d_inode de = Some v \<and> in_sync s v nd \<and> inode_no nd \<noteq> 1 \<and> inode_no nd \<noteq> inode_no pnd \<and>
     dir_lookup (dc, cache s (data_block_number pnd)) (d_name de) = Some (inode_no nd)"

lemma unlink_store:
  assumes st: "store_inv b m c fb" and kp: "kp \<in> used_slots b" "rd_inode kp b = pnd" and pnd': "pnd' = pnd\<lparr>isize := i\<rparr>"
    and k: "k \<in> used_slots b" "k \<noteq> 0"
  shows "simplefs_inode_search b (inode_no pnd) 0 = Done (Some kp)"
    and "store_inv (clr_inode k (wr_inode kp pnd' b)) (m AND NOT (push_bit (Suc k) 1)) (c - 1) fb"
proof -
  show "simplefs_inode_search b (inode_no pnd) 0 = Done (Some kp)"
    using numbered_search [OF _ kp(1)] st kp(2) by (simp add: store_inv_def)
  have pno: "inode_no pnd \<noteq> 0" using kp by (auto simp: used_slots_def slot_used_def)
  have "store_inv (wr_inode kp pnd' b) m c fb"
    using kp pnd' by (intro store_inv_save [OF st]) simp_all
  moreover have "k \<in> used_slots (wr_inode kp pnd' b)"
    using k(1) kp(1) pno pnd' by (auto simp: used_slots_def)
  ultimately show "store_inv (clr_inode k (wr_inode kp pnd' b)) (m AND NOT (push_bit (Suc k) 1)) (c - 1) fb"
    using k(2) by (rule store_inv_del)
qed

lemma inode_of_unlink:
  assumes fs: "fs_inv s" and look: "inode_of s (inode_no pnd) = Some pnd" "inode_of s no = Some nd"
    and "no \<noteq> inode_no pnd" "pnd' = pnd\<lparr>isize := i\<rparr>"
    and c: "cache s' 1 = clr_inode (unat (no - 1)) (wr_inode (unat (inode_no pnd - 1)) pnd' (cache s 1))"
  shows "inode_of s' = (inode_of s)(inode_no pnd \<mapsto> pnd', no := None)"
proof -
  note pno = inode_of_Some [OF fs look(1)] and no = inode_of_Some [OF fs look(2)]
  define t where "t = s\<lparr>cache := (cache s)(1 := wr_inode (unat (inode_no pnd - 1)) pnd' (cache s 1))\<rparr>"
  have "inode_of t = (inode_of s)(inode_no pnd \<mapsto> pnd')"
    using pno(4,5) by (rule inode_of_upd) (use assms(5) pno(4) in \<open>auto simp: t_def inodes.rd_wr_iff\<close>)
  moreover have "inode_of s' = (inode_of t)(no := None)"
    using no(4,5) by (rule inode_of_upd) (auto simp: c t_def inodes.rd_clr_iff)
  ultimately show ?thesis by simp
qed

text \<open>What stays on the device after a deletion: the inode, in a store that is only marked as dirty.\<close>

definition unlinked ::
    "simplefs_inode \<Rightarrow> simplefs_inode \<Rightarrow> nat \<Rightarrow> nat \<Rightarrow> nat \<Rightarrow> 'a fsstate_scheme \<Rightarrow> 'a fsstate_scheme \<Rightarrow> bool" where
  "unlinked nd pnd p dir d s s' \<longleftrightarrow>
     inode_of s' = (inode_of s)(inode_no pnd \<mapsto> pnd\<lparr>isize := isize pnd - 1\<rparr>, inode_no nd := None) \<and>
     free_blocks (sb_mem s') = free_blocks (sb_mem s) \<and>
     rd_super (disk s' 0) = sb_mem s' \<and>
     disk s' (data_block_number pnd) = cache s' (data_block_number pnd) \<and>
     rd_inode (unat (inode_no nd - 1)) (disk s' 1) = nd \<and>
     (\<forall>b. b \<noteq> 0 \<and> b \<noteq> 1 \<and> b \<noteq> data_block_number pnd \<longrightarrow> cache s' b = cache s b \<and> disk s' b = disk s b) \<and>
     (\<forall>w. w \<noteq> dir \<longrightarrow> icache s' w = icache s w) \<and>
     (\<forall>w. w \<noteq> d \<and> w \<noteq> p \<longrightarrow> dcache s' w = dcache s w) \<and> next_inode s' = next_inode s"

lemma unlink_run:
  assumes "calm e" "idle_inv s" and cu: "can_unlink s p dir pnd dc d de v nd"
    and n: "n = data_block_number pnd" and pnd': "pnd' = pnd\<lparr>isize := isize pnd - 1\<rparr>"
    and k: "k = unat (inode_no nd - 1)" "kp = unat (inode_no pnd - 1)"
  obtains dc' b' b0 pd s' where
    "simplefs_unlink e dir d s = Done (0, s')"
    "dir_inv (dc', b')" "length (free dc') = Suc (length (free dc))"
    "cached_children_count dc' = cached_children_count dc - 1"
    "\<forall>y. name_ok y \<longrightarrow> dir_lookup (dc', b') y = (if y = d_name de then None else dir_lookup (dc, cache s n) y)"
    "cache s' = (cache s)(n := b', 1 := clr_inode k (wr_inode kp pnd' (cache s 1)), 0 := b0)"
    "disk s' = (disk s)(n := b', 1 := wr_inode kp pnd' (cache s 1), 0 := b0)"
    "store_inv (clr_inode k (wr_inode kp pnd' (cache s 1))) (imap s') (inodes_count (sb_mem s')) (free_blocks (sb_mem s'))"
    "free_blocks (sb_mem s') = free_blocks (sb_mem s)" "rd_super b0 = sb_mem s'" "held s' = held s" "next_inode s' = next_inode s"
    "dcache s p = Some pd" "d_inode pd = Some dir"
    "icache s' = (icache s)(dir := map_option (\<lambda>vi. vi\<lparr>i_private := Some pnd'\<rparr>) (icache s dir))"
    "dcache s' = (dcache s)(p \<mapsto> pd\<lparr>d_fsdata := Some (Inr dc')\<rparr>, d \<mapsto> de\<lparr>d_count := d_count de - 1\<rparr>)"
proof -
  have fs: "fs_inv s" and un: "unlocked s" using assms(2) by (simp_all add: idle_inv_def)
  then have st: "store_inv (cache s 1) (imap s) (inodes_count (sb_mem s)) (free_blocks (sb_mem s))"
    by (simp add: fs_inv_def)
  obtain pd where pd: "dcache s p = Some pd" "d_inode pd = Some dir" "d_fsdata pd = Some (Inr dc)"
    and sync: "in_sync s dir pnd" "in_sync s v nd" and dinv: "dir_inv (dc, cache s n)"
    and de: "dcache s d = Some de" "d_parent de = p" "d \<noteq> p" "name_ok (d_name de)" "d_inode de = Some v"
    and no1: "inode_no nd \<noteq> 1" and dlook: "dir_lookup (dc, cache s n) (d_name de) = Some (inode_no nd)"
    using cu n by (auto simp: can_unlink_def open_dir_def)
  have look: "inode_of s (inode_no pnd) = Some pnd" "inode_of s (inode_no nd) = Some nd"
    using sync by (auto simp: in_sync_def)
  note pno = inode_of_Some [OF fs look(1), folded k] and no = inode_of_Some [OF fs look(2), folded k]
    and blkno = inode_of_block(3,4) [OF fs look(1), folded n]
  have "k \<noteq> 0" using no1 no(6) by (metis One_nat_def unat_1 word_unat_eq_iff)
  note store = unlink_store [OF st pno(1,2) pnd' no(1) this]
  have k': "k < INODES_PER_BLOCK" using no(1) by (simp add: used_slots_def)
  obtain dc' b' where rem: "dir_remove_entry (d_name de) dc (cache s n) = Done (dc', b')"
    and d': "dir_inv (dc', b')" "length (free dc') = Suc (length (free dc))"
      "\<forall>y. name_ok y \<longrightarrow> dir_lookup (dc', b') y = (if y = d_name de then None else dir_lookup (dc, cache s n) y)"
    using dir.rem_present [OF dinv de(4) dlook] by (auto simp: dir_room_def dir_remove_def)
  have cnt: "cached_children_count dc' = cached_children_count dc - 1"
    using rem by (auto simp: dir_remove_entry_def cache_entry_release_def outcome_simps split: option.splits)
  show thesis
    using unlink_calm [OF assms(1) un de(1-3) pd(1,3) de(5) in_sync_private [OF sync(2)] in_sync_private [OF sync(1)]
        n blkno rem store(1) k(1) [symmetric] k' no(5) pnd' refl refl refl]
      that [OF _ d'(1,2) cnt d'(3) _ _ _ _ _ _ _ pd(1,2)] store(2) no(6) by (auto simp: blk_simps)
qed

lemma unlink_effect:
  assumes "calm e" "idle_inv s" and cu: "can_unlink s p dir pnd dc d de v nd"
  shows "\<exists>dc' s'. simplefs_unlink e dir d s = Done (0, s') \<and> idle_inv s' \<and> unlinked nd pnd p dir d s s' \<and>
    dcache s' d = Some (de\<lparr>d_count := d_count de - 1\<rparr>) \<and>
    open_dir s' p dir (pnd\<lparr>isize := isize pnd - 1\<rparr>) dc' \<and> length (free dc') = Suc (length (free dc)) \<and>
    cached_children_count dc' = cached_children_count dc - 1 \<and>
    (\<forall>y. name_ok y \<longrightarrow> dir_lookup (dc', cache s' (data_block_number pnd)) y =
       (if y = d_name de then None else dir_lookup (dc, cache s (data_block_number pnd)) y))"
proof -
  let ?n = "data_block_number pnd" and ?pnd = "pnd\<lparr>isize := isize pnd - 1\<rparr>"
  let ?k = "unat (inode_no nd - 1)" and ?kp = "unat (inode_no pnd - 1)"
  have fs: "fs_inv s" and un: "unlocked s" using assms(2) by (simp_all add: idle_inv_def)
  have sync: "in_sync s dir pnd" "in_sync s v nd" and dp: "d \<noteq> p" and neq: "inode_no nd \<noteq> inode_no pnd"
    using cu by (auto simp: can_unlink_def open_dir_def)
  have look: "inode_of s (inode_no pnd) = Some pnd" "inode_of s (inode_no nd) = Some nd"
    using sync by (auto simp: in_sync_def)
  note pno = inode_of_Some [OF fs look(1)] and no = inode_of_Some [OF fs look(2)]
    and blkno = inode_of_block(3,4) [OF fs look(1)]
  have kk: "?k \<noteq> ?kp" using no(6) pno(6) neq by (metis word_unat_eq_iff)
  obtain dc' b' b0 pd s' where run: "simplefs_unlink e dir d s = Done (0, s')"
    and d': "dir_inv (dc', b')" "length (free dc') = Suc (length (free dc))"
      "cached_children_count dc' = cached_children_count dc - 1"
      "\<forall>y. name_ok y \<longrightarrow> dir_lookup (dc', b') y = (if y = d_name de then None else dir_lookup (dc, cache s ?n) y)"
    and c: "cache s' = (cache s)(?n := b', 1 := clr_inode ?k (wr_inode ?kp ?pnd (cache s 1)), 0 := b0)"
      "disk s' = (disk s)(?n := b', 1 := wr_inode ?kp ?pnd (cache s 1), 0 := b0)"
    and st: "store_inv (clr_inode ?k (wr_inode ?kp ?pnd (cache s 1))) (imap s') (inodes_count (sb_mem s')) (free_blocks (sb_mem s'))"
    and misc: "free_blocks (sb_mem s') = free_blocks (sb_mem s)" "rd_super b0 = sb_mem s'" "held s' = held s" "next_inode s' = next_inode s"
    and pd: "dcache s p = Some pd" "d_inode pd = Some dir"
    and vs: "icache s' = (icache s)(dir := map_option (\<lambda>vi. vi\<lparr>i_private := Some ?pnd\<rparr>) (icache s dir))"
      "dcache s' = (dcache s)(p \<mapsto> pd\<lparr>d_fsdata := Some (Inr dc')\<rparr>, d \<mapsto> de\<lparr>d_count := d_count de - 1\<rparr>)"
    by (rule unlink_run [OF assms refl refl refl refl])
  have c1: "cache s' 1 = clr_inode ?k (wr_inode ?kp ?pnd (cache s 1))" and cn: "cache s' ?n = b'"
    using blkno by (simp_all add: c)
  have inv: "idle_inv s'" using st un by (simp add: idle_inv_def fs_inv_def c1 unlocked_def misc)
  have look1: "inode_of s' = (inode_of s)(inode_no pnd \<mapsto> ?pnd, inode_no nd := None)"
    by (rule inode_of_unlink [OF fs look neq refl c1])
  have "open_dir s' p dir ?pnd dc'"
    using dp d'(1) cn look1 pd sync(1) neq by (auto simp: open_dir_def in_sync_def vs)
  moreover have "unlinked nd pnd p dir d s s'"
    using look1 misc blkno kk no(2) by (auto simp: unlinked_def c vs inodes.rd_wr_iff)
  ultimately show ?thesis
    using run inv d'(2-4) cn by (intro exI [of _ dc'] exI [of _ s']) (simp add: vs)
qed

section \<open>The effect of a lookup\<close>

definition fop_of :: "u16 \<Rightarrow> file_operations option" where
  "fop_of m = (if S_ISDIR m then Some simplefs_dir_operations
     else if S_ISREG m then Some simplefs_file_operations else None)"

lemma lookup_found:
  assumes "calm e" "keeps_type e" "idle_inv s" "open_dir s p dir pnd dc" "dcache s d = Some de" "d_parent de = p"
    and "dir_lookup (dc, cache s (data_block_number pnd)) (d_name de) = Some no" "inode_of s no = Some nd"
    and "dir \<noteq> next_inode s"
  shows "\<exists>vi s'. simplefs_lookup e dir d s = Done (0, s') \<and> idle_inv s' \<and> in_sync s' (next_inode s) nd \<and>
    icache s' = (icache s)(next_inode s \<mapsto> vi) \<and> i_fop vi = fop_of (ucast (mode nd)) \<and>
    dcache s' = (dcache s)(d \<mapsto> de\<lparr>d_inode := Some (next_inode s)\<rparr>) \<and>
    cache s' = cache s \<and> disk s' = disk s \<and> sb_mem s' = sb_mem s \<and> imap s' = imap s \<and>
    next_inode s' = Suc (next_inode s)"
proof -
  have fs: "fs_inv s" and un: "unlocked s" using assms(3) by (simp_all add: idle_inv_def)
  obtain pd where pd: "dcache s p = Some pd" "d_inode pd = Some dir" "d_fsdata pd = Some (Inr dc)"
    and sync: "in_sync s dir pnd" using assms(4) by (auto simp: open_dir_def)
  obtain dvi where dvi: "icache s dir = Some dvi" using sync by (auto simp: in_sync_def)
  obtain c where c: "used_cache_entry_get dc (d_name de) = Some c" "rec_inode_no (record_of c) = no"
    using assms(7) by (auto simp: dir_lookup_def)
  note no = inode_of_Some [OF fs assms(8)]
  have no': "unat (no - 1) < INODES_PER_BLOCK" "inode_no nd = no" "rd_inode (unat (no - 1)) (cache s 1) = nd"
    using no by (simp_all add: used_slots_def)
  let ?vi = "\<lparr>i_ino = no, i_mode = owner_mode e (Some (i_mode dvi)) (ucast (mode nd)), i_fop = fop_of (ucast (mode nd)),
     i_time = clock e (4 + tick s), i_private = Some nd\<rparr>"
  let ?s = "s\<lparr>tick := 5 + tick s, icache := (icache s)(next_inode s \<mapsto> ?vi), next_inode := Suc (next_inode s),
     dcache := (dcache s)(d \<mapsto> de\<lparr>d_inode := Some (next_inode s)\<rparr>)\<rparr>"
  have run: "simplefs_lookup e dir d s = Done (0, ?s)"
    using assms(1,5,6,9) un pd dvi c no' keeps_type_S_IS [OF assms(2)]
    by (simp add: simplefs_lookup_def get_dentry_def deref_cache_def get_vinode_def calm_simps vfs_update
        current_time_def blank_inode_def fop_of_def Let_def)
  have eq: "inode_of ?s = inode_of s" by (rule inode_of_cong) simp
  have "idle_inv ?s" using assms(3) by (simp add: idle_inv_def fs_inv_def unlocked_def)
  moreover have "in_sync ?s (next_inode s) nd"
    unfolding in_sync_def eq using assms(8) no' by simp
  ultimately show ?thesis using run by (intro exI [of _ ?vi] exI [of _ ?s]) simp
qed

lemma lookup_absent:
  assumes "dcache s d = Some de" "d_parent de = p" "open_dir s p dir pnd dc"
    and "dir_lookup (dc, cache s (data_block_number pnd)) (d_name de) = None"
  shows "simplefs_lookup e dir d s = Done (0, s)"
  using assms by (auto simp: simplefs_lookup_def get_dentry_def deref_cache_def open_dir_def dir_lookup_def)

section \<open>Sequences\<close>

lemma root_exists: "fs_inv s \<Longrightarrow> inode_of s 1 \<noteq> None"
  by (simp add: inode_of_def fs_inv_def store_inv_def root_inv_def)

lemma created_heap:
  assumes "can_create s p dir pnd dc d de" "created nd pnd p dir d s s'"
  shows "\<forall>w \<ge> next_inode s'. icache s' w = None" "dir \<noteq> next_inode s'"
proof -
  have heap: "\<forall>w \<ge> next_inode s. icache s w = None" and ex: "icache s dir \<noteq> None"
    using assms(1) by (auto simp: can_create_def open_dir_def in_sync_def)
  then show "\<forall>w \<ge> next_inode s'. icache s' w = None" using assms(2) by (auto simp: created_def)
  have "dir < next_inode s" using heap ex by (metis linorder_not_le)
  then show "dir \<noteq> next_inode s'" using assms(2) by (simp add: created_def)
qed

text \<open>After a creation the new object can be deleted.\<close>

lemma created_can_unlink:
  assumes "fs_inv s" "can_create s p dir pnd dc d de" "inode_of s (inode_no nd) = None"
    and "dcache s' d = Some (de\<lparr>d_inode := Some v\<rparr>)" "in_sync s' v nd" "open_dir s' p dir (pnd\<lparr>isize := i\<rparr>) dc'"
    and "dir_lookup (dc', cache s' (data_block_number pnd)) (d_name de) = Some (inode_no nd)"
  shows "can_unlink s' p dir (pnd\<lparr>isize := i\<rparr>) dc' d (de\<lparr>d_inode := Some v\<rparr>) v nd"
proof -
  have "inode_no nd \<noteq> 1" using root_exists [OF assms(1)] assms(3) by auto
  moreover have "inode_no nd \<noteq> inode_no pnd"
    using assms(2,3) by (auto simp: can_create_def open_dir_def in_sync_def)
  ultimately show ?thesis using assms(2,4-7) by (auto simp: can_unlink_def can_create_def)
qed

definition free_count :: "u64 \<Rightarrow> nat" where
  "free_count fb = card {k. 3 \<le> k \<and> k < 32 \<and> block_free fb k}"

lemma free_count_take:
  assumes "lowest_free fb j"
  shows "free_count fb = Suc (free_count (fb AND int_to_u64 (NOT (push_bit j 1))))"
proof -
  have j: "3 \<le> j" "j < 32" "block_free fb j" using assms by (simp_all add: lowest_free_def)
  let ?F = "\<lambda>fb. {k. 3 \<le> k \<and> k < 32 \<and> block_free fb k}"
  have "?F (fb AND int_to_u64 (NOT (push_bit j 1))) = ?F fb - {j}"
    using j by (auto simp: block_free_clear_mask)
  moreover have "card (?F fb) = Suc (card (?F fb - {j}))" using j by (intro card.remove) auto
  ultimately show ?thesis by (simp add: free_count_def)
qed

lemma create_record_full:
  assumes "calm e" "dcache s p = Some pd" "d_fsdata pd = Some (Inr dc)" "SIMPLEFS_INODE (Some dir) s = Done parent" "free dc = []"
  shows "create_record e dir p name no s = Fault Out_of_bounds"
  using assms
  by (simp add: create_record_def calm_simps get_dentry_def deref_cache_def free_cache_entry_get_def dir_add_entry_def Let_def)

lemma create_refused:
  assumes "calm e" "unlocked s" "dcache s d = Some de" "dcache s (d_parent de) = Some pd" "d_inode pd = Some dir"
    and "d_fsdata pd = Some c" "64 \<le> inodes_count (sb_mem s) \<or> \<not> S_ISDIR m \<and> \<not> S_ISREG m"
  shows "simplefs_create_fs_object e dir d m s =
    Done (if 64 \<le> inodes_count (sb_mem s) then - ENOSPC else - EINVAL, s\<lparr>tick := tick s + 2\<rparr>)"
  using assms
  by (auto simp: simplefs_create_fs_object_def create_checks_def calm_simps get_dentry_def out_param_def unlock_return_def)

lemma S_ISDIR_or: "m AND S_IFMT = 0 \<Longrightarrow> S_ISDIR (S_IFDIR OR m)"
  by (simp add: S_ISDIR_def bit.conj_disj_distrib2)

section \<open>Properties\<close>

text \<open>The file system with one file, after the root directory was listed.\<close>

definition root_cache :: simplefs_dir_cache where
  "root_cache = \<lparr>cached_children_count = 0, used = [entry_at (new_record 0 [97] 2 (\<lambda>_. 0)) 0],
     free = map (\<lambda>i. \<lparr>record_of = zero_record, entry_no = i\<rparr>) [1..<RECORDS_PER_BLOCK]\<rparr>"

definition listed :: fsstate where
  "listed = one_file\<lparr>dcache := (dcache one_file)(0 \<mapsto>
     \<lparr>d_inode = Some 0, d_parent = 0, d_name = [47], d_fsdata = Some (Inr root_cache), d_count = 1\<rparr>)\<rparr>"

lemma listed_inv: "idle_inv listed"
  using one_file_inv by (simp add: idle_inv_def fs_inv_def unlocked_def listed_def)

lemma listed_block: "cache listed 2 = new_record 0 [97] 2 (\<lambda>_. 0)"
  by (simp add: listed_def one_file_def)

lemma listed_records: "is_used (cache listed 2) i \<longleftrightarrow> i = 0"
  "0 \<notin> set y \<Longrightarrow> matches (cache listed 2) 0 y \<longleftrightarrow> y = [97]" "rec_inode_no (rd_record 0 (cache listed 2)) = 2"
  using new_record_facts [OF name_a _ refl, where no = 2 and k = 0 and b = "\<lambda>_. 0"] by (simp_all add: listed_block)

lemma listed_dir_inv: "dir_inv (root_cache, cache listed 2)"
proof -
  let ?b = "cache listed 2"
  have "used_entries ?b [0..<RECORDS_PER_BLOCK] = map (entry_at ?b) (filter (\<lambda>i. i = 0) [0..<RECORDS_PER_BLOCK])"
    by (simp add: used_entries_def listed_records(1) cong: filter_cong del: upt_rec_numeral)
  moreover have "filter (\<lambda>i. i = 0) [0..<RECORDS_PER_BLOCK] = [0]" by code_simp
  ultimately have "used root_cache = used_entries ?b [0..<RECORDS_PER_BLOCK]"
    by (simp add: root_cache_def listed_block del: upt_rec_numeral)
  moreover have "entry_no ` set (free root_cache) = {i. i < RECORDS_PER_BLOCK \<and> \<not> is_used ?b i}"
    by (auto simp: root_cache_def listed_records(1) image_image simp del: upt_rec_numeral)
  moreover have "distinct (map entry_no (free root_cache))"
    by (simp add: root_cache_def comp_def del: upt_rec_numeral)
  moreover have "names_unique ?b" by (simp add: names_unique_def listed_records(1))
  ultimately show ?thesis by (simp add: dir_inv_def cache_ok_def)
qed

lemma listed_sync: "in_sync listed 0 root_inode" "in_sync listed 1 sample_inode"
proof -
  have "inode_of listed = inode_of one_file" by (rule ext) (simp add: inode_of_def listed_def)
  then show "in_sync listed 0 root_inode" "in_sync listed 1 sample_inode"
    using one_file_sync by (simp_all add: in_sync_def) (simp_all add: listed_def)
qed

lemma listed_open: "open_dir listed 0 0 root_inode root_cache"
  using listed_dir_inv listed_sync(1) by (simp add: open_dir_def root_inode_def) (simp add: listed_def)

lemma listed_lookup:
  "0 \<notin> set y \<Longrightarrow> dir_lookup (root_cache, cache listed 2) y = (if y = [97] then Some 2 else None)"
  by (rule dir_lookup_eqI [OF listed_dir_inv]) (auto simp: listed_records)

definition dentry_b :: dentry where
  "dentry_b = \<lparr>d_inode = None, d_parent = 0, d_name = [98], d_fsdata = None, d_count = 1\<rparr>"

lemma listed_can_create: "can_create listed 0 0 root_inode root_cache 2 dentry_b"
proof -
  have "block_free (free_blocks (sb_mem listed)) 4" by (simp add: listed_def one_file_def one_file_free)
  moreover have "dcache listed 2 = Some dentry_b" "\<forall>v \<ge> next_inode listed. icache listed v = None"
    by (simp_all add: listed_def one_file_def dentry_b_def)
  moreover have "dir_lookup (root_cache, cache listed 2) [98] = None" by (simp add: listed_lookup)
  moreover have "free root_cache \<noteq> []" by (simp add: root_cache_def del: upt_rec_numeral)
  ultimately show ?thesis
    using listed_open
    by (auto simp: can_create_def root_inode_def dentry_b_def name_ok_def simp del: upt_rec_numeral intro!: exI [of _ 4])
qed

text \<open>C1: creating a file or directory.  In an idle file system with the invariant, for a name that is not in
  the open directory, with a free record and a free data block, \<open>simplefs_create_fs_object\<close> returns 0.
  The new inode has the lowest number no inode has and the lowest free data block; the
  directory, in cache and block, has the new name for it and otherwise the names it had; the parent's
  count is one more, and no other inode, block or object is changed.  Super block, inode store and
  directory block are on the device, the new in-core inode is bound to the directory entry and agrees
  with the inode store, the invariant holds, and no lock is held.\<close>

theorem create_correct:
  assumes "calm e" "idle_inv s" "can_create s p dir pnd dc d de" "S_ISDIR m \<or> S_ISREG m"
  shows "\<exists>no j nd dc' s'. simplefs_create_fs_object e dir d m s = Done (0, s') \<and> idle_inv s' \<and>
    inode_of s no = None \<and> (\<forall>m. m \<noteq> 0 \<and> m < no \<longrightarrow> inode_of s m \<noteq> None) \<and> lowest_free (free_blocks (sb_mem s)) j \<and>
    nd = \<lparr>mode = ucast m, inode_no = no, data_block_number = of_nat j, isize = 0\<rparr> \<and>
    created nd pnd p dir d s s' \<and>
    dcache s' d = Some (de\<lparr>d_inode := Some (next_inode s)\<rparr>) \<and> in_sync s' (next_inode s) nd \<and>
    open_dir s' p dir (pnd\<lparr>isize := isize pnd + 1\<rparr>) dc' \<and> Suc (length (free dc')) = length (free dc) \<and>
    (\<forall>y. name_ok y \<longrightarrow> dir_lookup (dc', cache s' (data_block_number pnd)) y =
       (if y = d_name de then Some no else dir_lookup (dc, cache s (data_block_number pnd)) y))"
  by (rule create_effect [OF assms])

lemma S_ISREG_file: "S_ISREG 0x81A4"
  by (simp add: S_ISREG_def)

theorem create_correct_witness:
  "\<exists>no dc' s'. simplefs_create_fs_object quiet_env 0 2 0x81A4 listed = Done (0, s') \<and> idle_inv s' \<and>
    dir_lookup (dc', cache s' 2) [98] = Some no \<and> dir_lookup (dc', cache s' 2) [97] = Some 2"
proof -
  obtain no dc' s' where r: "simplefs_create_fs_object quiet_env 0 2 0x81A4 listed = Done (0, s')" "idle_inv s'"
    and l: "\<forall>y. name_ok y \<longrightarrow> dir_lookup (dc', cache s' (data_block_number root_inode)) y =
       (if y = d_name dentry_b then Some no else dir_lookup (root_cache, cache listed (data_block_number root_inode)) y)"
    using create_correct [OF calm_quiet_env(1) listed_inv listed_can_create, of "0x81A4"] S_ISREG_file by blast
  have n: "data_block_number root_inode = 2" "d_name dentry_b = [98]" by (simp_all add: root_inode_def dentry_b_def)
  have "name_ok [98]" "name_ok [97]" "dir_lookup (root_cache, cache listed 2) [97] = Some 2"
    by (simp_all add: name_ok_def listed_lookup)
  then have "dir_lookup (dc', cache s' 2) [98] = Some no" "dir_lookup (dc', cache s' 2) [97] = Some 2"
    using l n by auto
  then show ?thesis using r by blast
qed

text \<open>C5: deleting a file.  For the directory entry of an existing object in an open directory, \<open>simplefs_unlink\<close>
  returns 0; exactly that name leaves the directory, in cache and block, exactly that inode leaves the
  in-core inode store and bitmap, the parent's count is one less, and the invariant holds with no
  lock held.  The data block of the object stays marked as taken, and the object's inode is still
  in the inode store on the device (the store is only marked as dirty).\<close>

theorem unlink_correct:
  assumes "calm e" "idle_inv s" "can_unlink s p dir pnd dc d de v nd"
  shows "\<exists>dc' s'. simplefs_unlink e dir d s = Done (0, s') \<and> idle_inv s' \<and> unlinked nd pnd p dir d s s' \<and>
    open_dir s' p dir (pnd\<lparr>isize := isize pnd - 1\<rparr>) dc' \<and> length (free dc') = Suc (length (free dc)) \<and>
    cached_children_count dc' = cached_children_count dc - 1 \<and>
    (\<forall>y. name_ok y \<longrightarrow> dir_lookup (dc', cache s' (data_block_number pnd)) y =
       (if y = d_name de then None else dir_lookup (dc, cache s (data_block_number pnd)) y))"
  using unlink_effect [OF assms] by blast

definition dentry_a :: dentry where
  "dentry_a = \<lparr>d_inode = Some 1, d_parent = 0, d_name = [97], d_fsdata = None, d_count = 1\<rparr>"

lemma listed_can_unlink: "can_unlink listed 0 0 root_inode root_cache 1 dentry_a 1 sample_inode"
proof -
  have "dcache listed 1 = Some dentry_a" by (simp add: listed_def one_file_def dentry_a_def)
  moreover have "dir_lookup (root_cache, cache listed 2) [97] = Some 2" by (simp add: listed_lookup)
  ultimately show ?thesis
    using listed_open listed_sync(2)
    by (simp add: can_unlink_def root_inode_def dentry_a_def name_ok_def) (simp add: sample_inode_def)
qed

theorem unlink_correct_witness:
  "\<exists>dc' s'. simplefs_unlink quiet_env 0 1 listed = Done (0, s') \<and> idle_inv s' \<and>
    dir_lookup (dc', cache s' 2) [97] = None \<and> rd_inode 1 (disk s' 1) = sample_inode \<and>
    cached_children_count dc' = - 1"
proof -
  obtain dc' s' where r: "simplefs_unlink quiet_env 0 1 listed = Done (0, s')" "idle_inv s'"
    and u: "unlinked sample_inode root_inode 0 0 1 listed s'" "cached_children_count dc' = cached_children_count root_cache - 1"
    and l: "\<forall>y. name_ok y \<longrightarrow> dir_lookup (dc', cache s' (data_block_number root_inode)) y =
       (if y = d_name dentry_a then None else dir_lookup (root_cache, cache listed (data_block_number root_inode)) y)"
    using unlink_correct [OF calm_quiet_env(1) listed_inv listed_can_unlink] by blast
  have "rd_inode 1 (disk s' 1) = sample_inode" using u(1) by (simp add: unlinked_def sample_inode_def)
  moreover have "dir_lookup (dc', cache s' 2) [97] = None" using l name_a by (simp add: root_inode_def dentry_a_def)
  moreover have "cached_children_count dc' = - 1" using u(2) by (simp add: root_cache_def)
  ultimately show ?thesis using r by blast
qed

text \<open>A created object is found again.  After a successful creation, a lookup of the same name in the same
  directory through another directory entry returns without error and binds that entry to an in-core
  inode with the inode number, mode and block just stored and with the file operations of its type.\<close>

theorem create_lookup_roundtrip:
  assumes "calm e" "keeps_type e" "idle_inv s" "can_create s p dir pnd dc d de" "S_ISDIR m \<or> S_ISREG m"
    and "dcache s d2 = Some de2" "d_parent de2 = p" "d_name de2 = d_name de" "d2 \<noteq> d" "d2 \<noteq> p"
  shows "\<exists>nd v vi s1 s2. simplefs_create_fs_object e dir d m s = Done (0, s1) \<and>
    inode_of s (inode_no nd) = None \<and> inode_of s1 (inode_no nd) = Some nd \<and> mode nd = ucast m \<and>
    simplefs_lookup e dir d2 s1 = Done (0, s2) \<and> dcache s2 d2 = Some (de2\<lparr>d_inode := Some v\<rparr>) \<and>
    icache s2 v = Some vi \<and> i_private vi = Some nd \<and> i_fop vi = fop_of (ucast (mode nd)) \<and> idle_inv s2"
proof -
  obtain no j nd dc' s1 where c: "simplefs_create_fs_object e dir d m s = Done (0, s1)" "idle_inv s1"
    "inode_of s no = None" "nd = \<lparr>mode = ucast m, inode_no = no, data_block_number = of_nat j, isize = 0\<rparr>"
    "created nd pnd p dir d s s1" "in_sync s1 (next_inode s) nd" "open_dir s1 p dir (pnd\<lparr>isize := isize pnd + 1\<rparr>) dc'"
    and l: "\<forall>y. name_ok y \<longrightarrow> dir_lookup (dc', cache s1 (data_block_number pnd)) y =
       (if y = d_name de then Some no else dir_lookup (dc, cache s (data_block_number pnd)) y)"
    using create_effect [OF assms(1,3-5)] by blast
  have "name_ok (d_name de)" using assms(4) by (simp add: can_create_def)
  then have look: "dir_lookup (dc', cache s1 (data_block_number (pnd\<lparr>isize := isize pnd + 1\<rparr>))) (d_name de2) = Some no"
    using l assms(8) by simp
  have d2: "dcache s1 d2 = Some de2" using c(5) assms(6,9,10) by (simp add: created_def)
  have nd: "inode_of s1 no = Some nd" using c(4,6) by (simp add: in_sync_def)
  obtain vi s2 where s2: "simplefs_lookup e dir d2 s1 = Done (0, s2)" "idle_inv s2" "in_sync s2 (next_inode s1) nd"
    "icache s2 = (icache s1)(next_inode s1 \<mapsto> vi)" "i_fop vi = fop_of (ucast (mode nd))"
    "dcache s2 = (dcache s1)(d2 \<mapsto> de2\<lparr>d_inode := Some (next_inode s1)\<rparr>)"
    using lookup_found [OF assms(1,2) c(2) c(7) d2 assms(7) look nd created_heap(2) [OF assms(4) c(5)]] by blast
  moreover have "i_private vi = Some nd" using s2(3,4) by (simp add: in_sync_def)
  ultimately show ?thesis
    using c(1,3,4) nd by (intro exI [of _ nd] exI [of _ "next_inode s1"] exI [of _ vi] exI [of _ s1] exI [of _ s2]) simp
qed

theorem create_lookup_roundtrip_witness:
  "\<exists>v s1 s2. simplefs_create_fs_object quiet_env 0 2 0x81A4 (listed\<lparr>dcache := (dcache listed)(3 \<mapsto> dentry_b)\<rparr>) = Done (0, s1) \<and>
    simplefs_lookup quiet_env 0 3 s1 = Done (0, s2) \<and> dcache s2 3 = Some (dentry_b\<lparr>d_inode := Some v\<rparr>) \<and> idle_inv s2"
proof -
  let ?s = "listed\<lparr>dcache := (dcache listed)(3 \<mapsto> dentry_b)\<rparr>"
  have inode: "inode_of ?s = inode_of listed" by (rule inode_of_cong) simp
  have "in_sync ?s 0 root_inode" using listed_sync(1) unfolding in_sync_def inode by simp
  then have "open_dir ?s 0 0 root_inode root_cache" using listed_open by (simp add: open_dir_def)
  then have "can_create ?s 0 0 root_inode root_cache 2 dentry_b"
    using listed_can_create by (simp add: can_create_def)
  moreover have "idle_inv ?s" using listed_inv by (simp add: idle_inv_def fs_inv_def unlocked_def)
  moreover have "d_parent dentry_b = 0" by (simp add: dentry_b_def)
  ultimately show ?thesis
    using create_lookup_roundtrip [OF calm_quiet_env, of ?s 0 0 root_inode root_cache 2 dentry_b "0x81A4" 3 dentry_b] S_ISREG_file
    by auto
qed

text \<open>C20: a deleted file's data block is lost.  Creating an object and deleting it again leaves the same inodes under
  the same numbers and the same names in the directory, but the number of blocks the allocator can still hand out, at
  most 29, is smaller.\<close>

theorem create_unlink_leaks_block:
  assumes "calm e" "idle_inv s" "can_create s p dir pnd dc d de" "S_ISDIR m \<or> S_ISREG m"
  shows "\<exists>dc'' s1 s2. simplefs_create_fs_object e dir d m s = Done (0, s1) \<and>
    simplefs_unlink e dir d s1 = Done (0, s2) \<and> idle_inv s2 \<and> inode_of s2 = inode_of s \<and>
    open_dir s2 p dir pnd dc'' \<and>
    (\<forall>y. name_ok y \<longrightarrow> dir_lookup (dc'', cache s2 (data_block_number pnd)) y =
       dir_lookup (dc, cache s (data_block_number pnd)) y) \<and>
    free_count (free_blocks (sb_mem s2)) < free_count (free_blocks (sb_mem s))"
proof -
  let ?n = "data_block_number pnd" and ?pnd = "pnd\<lparr>isize := isize pnd + 1\<rparr>"
  obtain no j nd dc' s1 where c: "simplefs_create_fs_object e dir d m s = Done (0, s1)" "idle_inv s1"
    "inode_of s no = None" "lowest_free (free_blocks (sb_mem s)) j"
    "nd = \<lparr>mode = ucast m, inode_no = no, data_block_number = of_nat j, isize = 0\<rparr>"
    "created nd pnd p dir d s s1" "dcache s1 d = Some (de\<lparr>d_inode := Some (next_inode s)\<rparr>)"
    "in_sync s1 (next_inode s) nd" "open_dir s1 p dir ?pnd dc'"
    and l: "\<forall>y. name_ok y \<longrightarrow> dir_lookup (dc', cache s1 ?n) y =
       (if y = d_name de then Some no else dir_lookup (dc, cache s ?n) y)"
    using create_effect [OF assms] by blast
  have name: "name_ok (d_name de)" "dir_lookup (dc, cache s ?n) (d_name de) = None"
    and pnd: "inode_of s (inode_no pnd) = Some pnd"
    using assms(3) by (auto simp: can_create_def open_dir_def in_sync_def)
  have nd: "inode_no nd = no" "unat (data_block_number nd) = j" using c(4,5) by (simp_all add: lowest_free_def)
  have "can_unlink s1 p dir ?pnd dc' d (de\<lparr>d_inode := Some (next_inode s)\<rparr>) (next_inode s) nd"
    using assms(2) c(3,7-9) l name(1) nd(1)
    by (intro created_can_unlink [OF _ assms(3)]) (auto simp: idle_inv_def)
  from unlink_effect [OF assms(1) c(2) this]
  obtain dc'' s2 where u: "simplefs_unlink e dir d s1 = Done (0, s2)" "idle_inv s2" "unlinked nd ?pnd p dir d s1 s2"
    "open_dir s2 p dir pnd dc''"
    and l2: "\<forall>y. name_ok y \<longrightarrow> dir_lookup (dc'', cache s2 ?n) y =
       (if y = d_name de then None else dir_lookup (dc', cache s1 ?n) y)"
    by auto
  have "inode_of s2 = inode_of s"
    using u(3) c(3,6) nd(1) pnd by (auto simp: unlinked_def created_def fun_eq_iff)
  moreover have "free_count (free_blocks (sb_mem s2)) < free_count (free_blocks (sb_mem s))"
    using u(3) c(6) free_count_take [OF c(4)] nd(2) by (simp add: unlinked_def created_def)
  moreover have "\<forall>y. name_ok y \<longrightarrow> dir_lookup (dc'', cache s2 ?n) y = dir_lookup (dc, cache s ?n) y"
    using l l2 name(2) by auto
  ultimately show ?thesis using c(1) u(1,2,4) by blast
qed

theorem create_unlink_leaks_block_witness:
  "\<exists>s1 s2. simplefs_create_fs_object quiet_env 0 2 0x81A4 listed = Done (0, s1) \<and>
    simplefs_unlink quiet_env 0 2 s1 = Done (0, s2) \<and> inode_of s2 = inode_of listed \<and>
    free_count (free_blocks (sb_mem s2)) < free_count (free_blocks (sb_mem listed))"
  using create_unlink_leaks_block [OF calm_quiet_env(1) listed_inv listed_can_create, of "0x81A4"] S_ISREG_file by blast

text \<open>C22: a directory is unusable until it is listed.  After a successful \<open>simplefs_mkdir\<close> the new directory entry
  has no directory cache, which only \<open>simplefs_iterate\<close> builds: a lookup of any name in it dereferences
  NULL, and a creation in it stops at \<open>BUG_ON(!dir_cache)\<close>.\<close>

theorem mkdir_unusable_until_listed:
  assumes "calm e" "idle_inv s" "can_create s p dir pnd dc d de" "m AND S_IFMT = 0" "d_fsdata de = None"
    and "dcache s d2 = Some de2" "d_parent de2 = d" "d2 \<noteq> d" "d2 \<noteq> p"
  shows "\<exists>s1. simplefs_mkdir e dir d m s = Done (0, s1) \<and>
    simplefs_lookup e (next_inode s) d2 s1 = Fault Null_deref \<and>
    simplefs_create_fs_object e (next_inode s) d2 m2 s1 = Fault Bug_on"
proof -
  obtain nd s1 where c: "simplefs_create_fs_object e dir d (S_IFDIR OR m) s = Done (0, s1)"
    "created nd pnd p dir d s s1" "dcache s1 d = Some (de\<lparr>d_inode := Some (next_inode s)\<rparr>)"
    using create_effect [OF assms(1-3), of "S_IFDIR OR m"] S_ISDIR_or [OF assms(4)] by blast
  have "dcache s1 d2 = Some de2" using c(2) assms(6,8,9) by (simp add: created_def)
  then show ?thesis
    using c(1,3) assms(5,7)
    by (simp add: simplefs_mkdir_def simplefs_lookup_def simplefs_create_fs_object_def get_dentry_def deref_cache_def)
qed

theorem mkdir_unusable_until_listed_witness:
  "\<exists>s1. simplefs_mkdir quiet_env 0 2 0x1ED (listed\<lparr>dcache := (dcache listed)(3 \<mapsto> dentry_b\<lparr>d_parent := 2\<rparr>)\<rparr>) = Done (0, s1) \<and>
    simplefs_lookup quiet_env 2 3 s1 = Fault Null_deref"
proof -
  let ?s = "listed\<lparr>dcache := (dcache listed)(3 \<mapsto> dentry_b\<lparr>d_parent := 2\<rparr>)\<rparr>"
  have inode: "inode_of ?s = inode_of listed" by (rule inode_of_cong) simp
  have "in_sync ?s 0 root_inode" using listed_sync(1) unfolding in_sync_def inode by simp
  then have "open_dir ?s 0 0 root_inode root_cache" using listed_open by (simp add: open_dir_def)
  then have "can_create ?s 0 0 root_inode root_cache 2 dentry_b"
    using listed_can_create by (simp add: can_create_def)
  moreover have "idle_inv ?s" using listed_inv by (simp add: idle_inv_def fs_inv_def unlocked_def)
  moreover have "next_inode ?s = 2" "d_fsdata dentry_b = None" by (simp_all add: listed_def one_file_def dentry_b_def)
  ultimately show ?thesis
    using mkdir_unusable_until_listed [OF calm_quiet_env(1), of ?s 0 0 root_inode root_cache 2 dentry_b "0x1ED" 3 "dentry_b\<lparr>d_parent := 2\<rparr>"]
    by auto
qed

text \<open>A root directory all of whose records are in use, and its cache.\<close>

definition full_cache :: simplefs_dir_cache where
  "full_cache = \<lparr>cached_children_count = 0, used = map (entry_at (\<lambda>_. 1)) [0..<RECORDS_PER_BLOCK], free = []\<rparr>"

definition full_root :: fsstate where
  "full_root = one_file\<lparr>cache := (cache one_file)(2 := (\<lambda>_. 1)),
     dcache := (dcache one_file)(0 \<mapsto> \<lparr>d_inode = Some 0, d_parent = 0, d_name = [47],
       d_fsdata = Some (Inr full_cache), d_count = 1\<rparr>)\<rparr>"

lemma full_root_inv: "idle_inv full_root"
  using one_file_inv by (simp add: idle_inv_def fs_inv_def unlocked_def full_root_def)

lemma full_records: "is_used (\<lambda>_. 1) i" "0 \<notin> set y \<Longrightarrow> \<not> matches (\<lambda>_. 1) i y"
proof -
  have rd: "blk_read off n (\<lambda>_. 1) = replicate n 1" for off n by (simp add: list_eq_iff_nth_eq)
  have "bit (of_le (replicate 8 1)) 0" by (simp add: numeral_eq_Suc bit_simps)
  then show "is_used (\<lambda>_. 1) i" by (auto simp: is_used_def rd_record_def get_u64_def rd)
  assume y: "0 \<notin> set y"
  show "\<not> matches (\<lambda>_. 1) i y"
  proof
    assume "matches (\<lambda>_. 1) i y"
    then have "take (Suc (length y)) (filename (rd_record i (\<lambda>_. 1))) = cstr y"
      unfolding matches_def strcmp_eq_cstr [OF y] by blast
    moreover have "0 \<in> set (cstr y)" by (simp add: cstr_def)
    ultimately have "0 \<in> set (filename (rd_record i (\<lambda>_. 1)))" by (metis in_set_takeD)
    then show False by (auto simp: rd_record_def blk_read_def)
  qed
qed

lemma full_root_open: "open_dir full_root 0 0 root_inode full_cache"
proof -
  have "inode_of full_root = inode_of one_file" by (rule inode_of_cong) (simp add: full_root_def)
  then have "in_sync full_root 0 root_inode" using one_file_sync(1) by (simp add: in_sync_def full_root_def)
  moreover have "dir_inv (full_cache, \<lambda>_. 1)"
    using full_records by (simp add: dir_inv_def cache_ok_def names_unique_def used_entries_def full_cache_def del: upt_rec_numeral)
  ultimately show ?thesis by (simp add: open_dir_def root_inode_def) (simp add: full_root_def)
qed

text \<open>Creating the sixteenth entry of a directory.  When the directory cache has no free entry, a creation reads
  through the pointer \<open>list_first_entry\<close> computes from the empty list, after it has already taken a data
  block and stored the new inode.\<close>

theorem create_in_full_directory:
  assumes "calm e" "idle_inv s" "open_dir s p dir pnd dc" "free dc = []" "dcache s d = Some de" "d_parent de = p"
    and "3 \<le> k" "k < 32" "block_free (free_blocks (sb_mem s)) k" "S_ISDIR m \<or> S_ISREG m" "dir \<noteq> next_inode s"
  shows "simplefs_create_fs_object e dir d m s = Fault Out_of_bounds"
proof -
  have un: "unlocked s"
    and st: "store_inv (cache s 1) (imap s) (inodes_count (sb_mem s)) (free_blocks (sb_mem s))"
    using assms(2) by (simp_all add: idle_inv_def fs_inv_def)
  obtain pd where pd: "dcache s p = Some pd" "d_inode pd = Some dir" "d_fsdata pd = Some (Inr dc)"
    and sync: "in_sync s dir pnd" using assms(3) by (auto simp: open_dir_def)
  obtain vi where vi: "icache s dir = Some vi" "i_private vi = Some pnd" using sync by (auto simp: in_sync_def)
  obtain j where j: "lowest_free (free_blocks (sb_mem s)) j" using assms(7-9) lowest_free_ex by blast
  obtain i where i: "ffz (imap s) = Done (Suc i)" "Suc i < 64" using store_inv_ffz [OF st] by blast
  show ?thesis
    using assms(1,4-6,10,11) un pd vi j i Suc_u64(1,2) [OF i(2)] store_inv_count_small [OF st]
    by (simp add: simplefs_create_fs_object_def calm_simps create_checks_calm create_inode_calm
        create_record_full vfs_access vfs_update created_inode_def Let_def del: of_nat_Suc)
qed

theorem create_in_full_directory_witness:
  "simplefs_create_fs_object quiet_env 0 2 0x81A4 full_root = Fault Out_of_bounds"
proof (rule create_in_full_directory [OF calm_quiet_env(1) full_root_inv full_root_open])
  show "dcache full_root 2 = Some dentry_b" by (simp add: full_root_def one_file_def dentry_b_def)
  show "block_free (free_blocks (sb_mem full_root)) 4" by (simp add: full_root_def one_file_def one_file_free)
  show "S_ISDIR 0x81A4 \<or> S_ISREG 0x81A4" by (simp add: S_ISREG_file)
qed (simp_all add: full_cache_def full_root_def one_file_def dentry_b_def)

text \<open>What \<open>simplefs_create_fs_object\<close> refuses.  With 64 objects or more it returns \<open>-ENOSPC\<close>, otherwise for a
  mode that is neither a directory nor a regular file \<open>-EINVAL\<close>; in both cases nothing is changed and the
  directory lock is released.\<close>

theorem create_refuses:
  assumes "calm e" "unlocked s" "dcache s d = Some de" "dcache s (d_parent de) = Some pd" "d_inode pd = Some dir"
    and "d_fsdata pd = Some c" "64 \<le> inodes_count (sb_mem s) \<or> \<not> S_ISDIR m \<and> \<not> S_ISREG m"
  shows "simplefs_create_fs_object e dir d m s =
    Done (if 64 \<le> inodes_count (sb_mem s) then - ENOSPC else - EINVAL, s\<lparr>tick := tick s + 2\<rparr>)"
  by (rule create_refused [OF assms])

theorem create_refuses_witness:
  "simplefs_create_fs_object quiet_env 0 2 0x2000 listed = Done (- EINVAL, listed\<lparr>tick := 2\<rparr>)"
proof -
  have "inodes_count (sb_mem listed) = 2" "tick listed = 0" by (simp_all add: listed_def one_file_def)
  moreover have "dcache listed 2 = Some dentry_b" by (simp add: listed_def one_file_def dentry_b_def)
  moreover have "unlocked listed" using listed_inv by (simp add: idle_inv_def)
  ultimately show ?thesis
    using create_refuses [OF calm_quiet_env(1), of listed 2 dentry_b _ 0 "Inr root_cache" "0x2000"]
    by (simp add: dentry_b_def) (simp add: listed_def S_ISDIR_def S_ISREG_def)
qed

text \<open>\<open>simplefs_dentry_release\<close> frees every entry object of a directory cache exactly once: the entries it frees
  are those numbered 0 to 14, each once, and afterwards the directory entry has no cache.\<close>

theorem dentry_release_frees_all:
  assumes "dcache s d = Some de" "d_fsdata de = Some (Inr dc)" "cache_ok dc b"
  shows "\<exists>freed s'. simplefs_dentry_release d s = Done (freed, s') \<and>
    distinct (map entry_no freed) \<and> entry_no ` set freed = {i. i < RECORDS_PER_BLOCK} \<and>
    dcache s' d = Some (de\<lparr>d_fsdata := None\<rparr>)"
proof -
  have free: "free_entries xs ys = xs @ ys" for xs ys by (induction ys arbitrary: xs) simp_all
  have used: "map entry_no (used dc) = filter (is_used b) [0..<RECORDS_PER_BLOCK]"
    using assms(3) by (simp add: cache_ok_def used_entries_def comp_def del: upt_rec_numeral)
  then have "set (map entry_no (used dc)) = {i. i < RECORDS_PER_BLOCK \<and> is_used b i}" "distinct (map entry_no (used dc))"
    by (simp_all only: used) auto
  then show ?thesis
    using assms by (auto simp: simplefs_dentry_release_def get_dentry_def deref_cache_def free upd_dentry_def cache_ok_def image_Un)
qed

theorem dentry_release_frees_all_witness:
  "\<exists>freed s'. simplefs_dentry_release 0 listed = Done (freed, s') \<and> entry_no ` set freed = {i. i < 15}"
proof -
  have "cache_ok root_cache (cache listed 2)" using listed_dir_inv by (simp add: dir_inv_def)
  from dentry_release_frees_all [OF _ _ this, of listed 0] show ?thesis by (force simp: listed_def)
qed

end
