(* ===== verification/Sfs_Abstract.thy ===== *)
theory Sfs_Abstract
  imports Sfs_File_IO Sfs_Namespace
begin

text \<open>
  What \<open>simplefs\<close> promises to a user of one directory, and that the handlers implement it.  The abstract file system is
  a map from names to nodes, a file with its contents or a directory, with two counters: the
  records and the data blocks that are left.  Its directory entries are the names in play, each with whether
  it is bound to its object.  A call is refined by the handler of \<open>simplefs/simple.c\<close> that the virtual file
  system calls for it; the locale \<open>simulation\<close> carries the refinement from calls to sequences of calls.
\<close>

section \<open>The abstract file system\<close>

datatype anode = ADir | AFile bytes

record afs =
  afiles :: "bytes \<Rightarrow> anode option"
  aroom :: nat
  aspace :: nat
  adents :: "nat \<Rightarrow> (bytes \<times> bool) option"

datatype fcall = Creat nat u16 | Lookup nat | Write nat u64 bytes | Read nat u64 | Unlink nat

text \<open>
  \<open>afs_step\<close> gives the result and the next state, or \<open>None\<close> for a call outside the contract: a creation without a
  free record or block, a write that starts behind the end of the file or passes the block, and
  calls on entries in the wrong state.  A write ends the file where it stops.
\<close>

fun afs_step :: "fcall \<Rightarrow> afs \<Rightarrow> ((int \<times> bytes) \<times> afs) option" where
  "afs_step (Creat d m) a =
     (case adents a d of
        Some (y, False) \<Rightarrow>
          if \<not> S_ISDIR m \<and> \<not> S_ISREG m then Some ((- EINVAL, []), a)
          else if afiles a y = None \<and> 0 < aroom a \<and> 0 < aspace a
          then Some ((0, []),
            a\<lparr>afiles := (afiles a)(y \<mapsto> (if S_ISREG m then AFile [] else ADir)), aroom := aroom a - 1,
              aspace := aspace a - 1, adents := (adents a)(d \<mapsto> (y, True))\<rparr>)
          else None
      | _ \<Rightarrow> None)"
| "afs_step (Lookup d) a =
     (case adents a d of
        Some (y, False) \<Rightarrow>
          Some ((0, []), if afiles a y = None then a else a\<lparr>adents := (adents a)(d \<mapsto> (y, True))\<rparr>)
      | _ \<Rightarrow> None)"
| "afs_step (Write d pos buf) a =
     (case adents a d of
        Some (y, True) \<Rightarrow>
          (case afiles a y of
             Some (AFile bs) \<Rightarrow>
               if unat pos \<le> length bs \<and> unat pos + length buf \<le> BLOCK_SIZE
               then Some ((int (length buf), []), a\<lparr>afiles := (afiles a)(y \<mapsto> AFile (take (unat pos) bs @ buf))\<rparr>)
               else None
           | _ \<Rightarrow> None)
      | _ \<Rightarrow> None)"
| "afs_step (Read d n) a =
     (case adents a d of
        Some (y, True) \<Rightarrow>
          (case afiles a y of
             Some (AFile bs) \<Rightarrow> Some ((int (length (take (unat n) bs)), take (unat n) bs), a)
           | _ \<Rightarrow> None)
      | _ \<Rightarrow> None)"
| "afs_step (Unlink d) a =
     (case adents a d of
        Some (y, True) \<Rightarrow>
          if afiles a y = None then None
          else Some ((0, []), a\<lparr>afiles := (afiles a)(y := None), aroom := Suc (aroom a), adents := (adents a)(d := None)\<rparr>)
      | _ \<Rightarrow> None)"

text \<open>The handlers for the calls, in the directory whose in-core inode is at address \<open>dir\<close>; reads start at position 0.\<close>

fun fs_call :: "nat \<Rightarrow> kenv \<Rightarrow> fcall \<Rightarrow> 'a fsstate_scheme \<Rightarrow> ((int \<times> bytes) \<times> 'a fsstate_scheme) outcome" where
  "fs_call dir e (Creat d m) s = bnd (simplefs_create e dir d m False s) (\<lambda>(r, s). Done ((r, []), s))"
| "fs_call dir e (Lookup d) s = bnd (simplefs_lookup e dir d s) (\<lambda>(r, s). Done ((r, []), s))"
| "fs_call dir e (Write d pos buf) s = bnd (simplefs_write e d buf pos s) (\<lambda>((r, pos), s). Done ((r, []), s))"
| "fs_call dir e (Read d n) s = bnd (simplefs_read e d n 0 s) (\<lambda>((r, bs, pos), s). Done ((r, bs), s))"
| "fs_call dir e (Unlink d) s = bnd (simplefs_unlink e dir d s) (\<lambda>(r, s). Done ((r, []), s))"

section \<open>The abstraction\<close>

definition node_of :: "'a fsstate_scheme \<Rightarrow> simplefs_inode \<Rightarrow> anode" where
  "node_of s nd =
     (if S_ISREG (ucast (mode nd)) then AFile (blk_read 0 (unat (file_size nd)) (cache s (data_block_number nd))) else ADir)"

definition files :: "'a fsstate_scheme \<Rightarrow> (bytes \<Rightarrow> u64 option) \<Rightarrow> bytes \<Rightarrow> anode option" where
  "files s l y =
     (if name_ok y then case l y of None \<Rightarrow> None | Some no \<Rightarrow> map_option (node_of s) (inode_of s no) else None)"

text \<open>Every name of the directory leads to an object of its own, which is neither the root nor the directory itself,
  and a file fits its block.\<close>

definition links_ok :: "'a fsstate_scheme \<Rightarrow> u64 \<Rightarrow> (bytes \<Rightarrow> u64 option) \<Rightarrow> bool" where
  "links_ok s pno l \<longleftrightarrow> (\<forall>y no. name_ok y \<and> l y = Some no \<longrightarrow>
     no \<noteq> 1 \<and> no \<noteq> pno \<and> (\<forall>z. name_ok z \<and> l z = Some no \<longrightarrow> z = y) \<and>
     (\<exists>nd. inode_of s no = Some nd \<and> (S_ISREG (ucast (mode nd)) \<longrightarrow> unat (file_size nd) \<le> BLOCK_SIZE)))"

definition dentry_rel :: "'a fsstate_scheme \<Rightarrow> nat \<Rightarrow> (bytes \<Rightarrow> u64 option) \<Rightarrow> nat \<Rightarrow> bytes \<Rightarrow> bool \<Rightarrow> bool" where
  "dentry_rel s p l d y bound \<longleftrightarrow> d \<noteq> p \<and> name_ok y \<and>
     (\<exists>de. dcache s d = Some de \<and> d_parent de = p \<and> d_name de = y \<and>
       (bound \<longrightarrow> (\<exists>v nd. d_inode de = Some v \<and> in_sync s v nd \<and> l y = Some (inode_no nd))))"

definition fs_view ::
    "nat \<Rightarrow> nat \<Rightarrow> 'a fsstate_scheme \<Rightarrow> afs \<Rightarrow> simplefs_inode \<Rightarrow> simplefs_dir_cache \<Rightarrow> (bytes \<Rightarrow> u64 option) \<Rightarrow> bool" where
  "fs_view p dir s a pnd dc l \<longleftrightarrow> idle_inv s \<and> (\<forall>v \<ge> next_inode s. icache s v = None) \<and>
     aspace a = free_count (free_blocks (sb_mem s)) \<and>
     (\<forall>d e y b c. adents a d = Some (y, b) \<and> adents a e = Some (y, c) \<longrightarrow> d = e) \<and>
     open_dir s p dir pnd dc \<and> l = dir_lookup (dc, cache s (data_block_number pnd)) \<and>
     links_ok s (inode_no pnd) l \<and> afiles a = files s l \<and> aroom a = length (free dc) \<and>
     (\<forall>d y b. adents a d = Some (y, b) \<longrightarrow> dentry_rel s p l d y b)"

definition fs_rel :: "nat \<Rightarrow> nat \<Rightarrow> 'a fsstate_scheme \<Rightarrow> afs \<Rightarrow> bool" where
  "fs_rel p dir s a \<longleftrightarrow> (\<exists>pnd dc l. fs_view p dir s a pnd dc l)"

lemma fs_viewD:
  assumes "fs_view p dir s a pnd dc l"
  shows "idle_inv s" "\<forall>v \<ge> next_inode s. icache s v = None" "aspace a = free_count (free_blocks (sb_mem s))"
    "adents a d = Some (y, b) \<Longrightarrow> adents a d' = Some (y, c) \<Longrightarrow> d = d'"
    "open_dir s p dir pnd dc" "l = dir_lookup (dc, cache s (data_block_number pnd))" "links_ok s (inode_no pnd) l"
    "afiles a = files s l" "aroom a = length (free dc)" "adents a d = Some (y, b) \<Longrightarrow> dentry_rel s p l d y b"
    "fs_inv s" "in_sync s dir pnd" "inode_of s (inode_no pnd) = Some pnd"
proof -
  show "idle_inv s" "\<forall>v \<ge> next_inode s. icache s v = None" "aspace a = free_count (free_blocks (sb_mem s))"
    "adents a d = Some (y, b) \<Longrightarrow> adents a d' = Some (y, c) \<Longrightarrow> d = d'"
    "open_dir s p dir pnd dc" "l = dir_lookup (dc, cache s (data_block_number pnd))" "links_ok s (inode_no pnd) l"
    "afiles a = files s l" "aroom a = length (free dc)" "adents a d = Some (y, b) \<Longrightarrow> dentry_rel s p l d y b"
    using assms unfolding fs_view_def by blast+
  then show "fs_inv s" "in_sync s dir pnd" "inode_of s (inode_no pnd) = Some pnd"
    by (simp_all add: idle_inv_def open_dir_def in_sync_def)
qed

section \<open>Frame lemmas\<close>

lemma ucast_mode: "(ucast (ucast (m :: u16) :: u32) :: u16) = m"
  by (rule bit_word_eqI) (simp add: bit_simps)

lemma in_sync_frame:
  "in_sync s v nd \<Longrightarrow> icache s' v = icache s v \<Longrightarrow> inode_of s' (inode_no nd) = inode_of s (inode_no nd) \<Longrightarrow> in_sync s' v nd"
  by (simp add: in_sync_def)

lemma in_sync_neq: "in_sync s v nd \<Longrightarrow> in_sync s w nd' \<Longrightarrow> inode_no nd \<noteq> inode_no nd' \<Longrightarrow> v \<noteq> w"
  by (auto simp: in_sync_def)

lemma links_okD:
  assumes "links_ok s pno l" "name_ok y" "l y = Some no"
  obtains nd where "inode_of s no = Some nd" "no \<noteq> 1" "no \<noteq> pno"
    "S_ISREG (ucast (mode nd)) \<Longrightarrow> unat (file_size nd) \<le> BLOCK_SIZE" "\<And>z. name_ok z \<Longrightarrow> l z = Some no \<Longrightarrow> z = y"
  using assms unfolding links_ok_def by blast

lemma node_of_frame: "cache s' (data_block_number nd) = cache s (data_block_number nd) \<Longrightarrow> node_of s' nd = node_of s nd"
  by (simp add: node_of_def)

text \<open>An object of the directory other than those with the numbers in \<open>X\<close> keeps its node, when only the given blocks change.\<close>

lemma node_unchanged:
  assumes "fs_inv s" "inode_of s no = Some nd" "\<And>m. m \<in> X \<Longrightarrow> \<exists>nd. inode_of s m = Some nd \<and> m \<noteq> no"
    and "\<And>b. b \<noteq> 0 \<Longrightarrow> b \<noteq> 1 \<Longrightarrow> (\<And>m nd. m \<in> X \<Longrightarrow> inode_of s m = Some nd \<Longrightarrow> b \<noteq> data_block_number nd) \<Longrightarrow> cache s' b = cache s b"
  shows "node_of s' nd = node_of s nd"
proof (rule node_of_frame, rule assms(4))
  show "data_block_number nd \<noteq> 0" "data_block_number nd \<noteq> 1" using inode_of_block [OF assms(1,2)] by simp_all
  show "data_block_number nd \<noteq> data_block_number nd'" if "m \<in> X" "inode_of s m = Some nd'" for m nd'
    using inode_of_block_inj [OF assms(1,2) that(2)] assms(3) [OF that(1)] by auto
qed

lemma files_cong:
  assumes "cache s' = cache s"
  shows "files s' l = files s l"
proof -
  have "inode_of s' = inode_of s" by (rule inode_of_cong) (simp add: assms)
  moreover have "node_of s' = node_of s" by (rule ext) (simp add: node_of_def assms)
  ultimately show ?thesis by (intro ext) (simp add: files_def split: option.split)
qed

lemma files_None: "links_ok s pno l \<Longrightarrow> name_ok y \<Longrightarrow> files s l y = None \<longleftrightarrow> l y = None"
  by (auto simp: files_def elim: links_okD split: option.splits)

text \<open>The effect of an operation on one name: the other names keep their objects, and the name has none or \<open>nd\<close>.\<close>

lemma files_update:
  assumes links: "links_ok s pno l" and y: "name_ok y"
    and same: "\<And>z. name_ok z \<Longrightarrow> z \<noteq> y \<Longrightarrow> l' z = l z"
    and others: "\<And>z no nd. name_ok z \<Longrightarrow> z \<noteq> y \<Longrightarrow> l z = Some no \<Longrightarrow> inode_of s no = Some nd \<Longrightarrow>
      inode_of s' no = Some nd \<and> node_of s' nd = node_of s nd"
    and upd: "case upd of None \<Rightarrow> l' y = None
      | Some nd \<Rightarrow> l' y = Some (inode_no nd) \<and> inode_no nd \<noteq> 1 \<and> inode_no nd \<noteq> pno \<and> inode_of s' (inode_no nd) = Some nd \<and>
          (S_ISREG (ucast (mode nd)) \<longrightarrow> unat (file_size nd) \<le> BLOCK_SIZE) \<and>
          (\<forall>z. name_ok z \<and> z \<noteq> y \<longrightarrow> l z \<noteq> Some (inode_no nd))"
  shows "links_ok s' pno l'" "files s' l' = (files s l)(y := map_option (node_of s') upd)"
proof -
  show "links_ok s' pno l'"
    unfolding links_ok_def
  proof (intro allI impI)
    fix z no assume z: "name_ok z \<and> l' z = Some no"
    show "no \<noteq> 1 \<and> no \<noteq> pno \<and> (\<forall>x. name_ok x \<and> l' x = Some no \<longrightarrow> x = z) \<and>
      (\<exists>nd. inode_of s' no = Some nd \<and> (S_ISREG (ucast (mode nd)) \<longrightarrow> unat (file_size nd) \<le> BLOCK_SIZE))"
    proof (cases "z = y")
      case True
      then obtain nd where nd: "upd = Some nd" using upd z by (cases upd) auto
      then have "x = z" if "name_ok x" "l' x = Some no" for x
        using that upd z True same [of x] by (cases "x = y") auto
      then show ?thesis using nd True upd z by auto
    next
      case False
      then have lz: "l z = Some no" using same z by auto
      obtain nd where nd: "inode_of s no = Some nd" "no \<noteq> 1" "no \<noteq> pno"
        "S_ISREG (ucast (mode nd)) \<Longrightarrow> unat (file_size nd) \<le> BLOCK_SIZE" "\<And>x. name_ok x \<Longrightarrow> l x = Some no \<Longrightarrow> x = z"
        using links z lz by (blast elim: links_okD)
      have "l' y \<noteq> Some no" using upd lz z False by (cases upd) auto
      then have "x = z" if "name_ok x" "l' x = Some no" for x using nd(5) that same by metis
      then show ?thesis using nd others [OF _ False lz nd(1)] z by blast
    qed
  qed
  show "files s' l' = (files s l)(y := map_option (node_of s') upd)"
  proof
    fix z
    show "files s' l' z = ((files s l)(y := map_option (node_of s') upd)) z"
    proof (cases "z = y \<or> \<not> name_ok z")
      case True
      then show ?thesis using upd y by (auto simp: files_def split: option.splits)
    next
      case False
      then have z: "name_ok z" "z \<noteq> y" by simp_all
      show ?thesis
      proof (cases "l z")
        case None
        then show ?thesis using z same by (simp add: files_def)
      next
        case (Some no)
        then obtain nd where "inode_of s no = Some nd" using links z(1) by (blast elim: links_okD)
        then show ?thesis using z same others [OF z Some] Some by (simp add: files_def)
      qed
    qed
  qed
qed

lemma single_file:
  assumes "\<And>z. name_ok z \<Longrightarrow> l z = (if z = y then Some (inode_no nd) else None)" "name_ok y"
    and "inode_of s (inode_no nd) = Some nd" "inode_no nd \<noteq> 1" "inode_no nd \<noteq> pno" "unat (file_size nd) \<le> BLOCK_SIZE"
  shows "links_ok s pno l" "files s l = [y \<mapsto> node_of s nd]"
proof -
  have "links_ok s pno (\<lambda>_. None)" by (simp add: links_ok_def)
  note upd = files_update [OF this assms(2), of l s "Some nd"]
  show "links_ok s pno l" by (rule upd) (simp_all add: assms)
  have "files s (\<lambda>_. None) = (\<lambda>_. None)" by (rule ext) (simp add: files_def)
  moreover have "files s l = (files s (\<lambda>_. None))(y := map_option (node_of s) (Some nd))" by (rule upd) (simp_all add: assms)
  ultimately show "files s l = [y \<mapsto> node_of s nd]" by simp
qed

lemma dentry_rel_frame:
  assumes "dentry_rel s p l d y b" "dcache s' d = dcache s d" "l' y = l y"
    and "\<And>v nd. in_sync s v nd \<Longrightarrow> l y = Some (inode_no nd) \<Longrightarrow> icache s' v = icache s v \<and> inode_of s' (inode_no nd) = inode_of s (inode_no nd)"
  shows "dentry_rel s' p l' d y b"
  using assms unfolding dentry_rel_def by (metis in_sync_frame)

text \<open>
  What a call on the entry \<open>d\<close> with the name \<open>y\<close> leaves alone.  The numbers in \<open>T\<close> are those it may change: if no other name leads to
  one of them, and inodes, blocks and objects outside \<open>T\<close> are as before, then the other names keep their nodes and the other
  entries what they are bound to.
\<close>

lemma untouched:
  assumes view: "fs_view p dir s a pnd dc l" and d: "adents a d = Some (y, b)"
    and T: "\<forall>z k. name_ok z \<and> z \<noteq> y \<and> l z = Some k \<longrightarrow> k \<notin> T"
    and inodes: "\<forall>k. k \<notin> T \<longrightarrow> inode_of s' k = inode_of s k"
    and blocks: "\<forall>n. n \<noteq> 0 \<and> n \<noteq> 1 \<and> (\<forall>k x. k \<in> T \<and> inode_of s k = Some x \<longrightarrow> n \<noteq> data_block_number x) \<longrightarrow> cache s' n = cache s n"
    and objects: "\<forall>v x. in_sync s v x \<and> inode_no x \<notin> T \<longrightarrow> icache s' v = icache s v"
    and entries: "\<forall>w. w \<noteq> d \<and> w \<noteq> p \<longrightarrow> dcache s' w = dcache s w"
    and names: "\<forall>z. name_ok z \<and> z \<noteq> y \<longrightarrow> l' z = l z"
  shows "\<lbrakk>name_ok z; z \<noteq> y; l z = Some k; inode_of s k = Some x\<rbrakk> \<Longrightarrow> inode_of s' k = Some x \<and> node_of s' x = node_of s x"
    and "\<lbrakk>adents a d' = Some (y', b'); d' \<noteq> d\<rbrakk> \<Longrightarrow> dentry_rel s' p l' d' y' b'"
proof -
  note rel = fs_viewD [OF view]
  show "inode_of s' k = Some x \<and> node_of s' x = node_of s x" if z: "name_ok z" "z \<noteq> y" "l z = Some k" "inode_of s k = Some x"
  proof -
    have k: "k \<notin> T" using T z(1-3) by blast
    have "node_of s' x = node_of s x"
      by (rule node_unchanged [OF rel(11) z(4), of "{m \<in> T. inode_of s m \<noteq> None}"]) (use k in auto, use blocks in blast)
    then show ?thesis using k z(4) inodes by simp
  qed
  show "dentry_rel s' p l' d' y' b'" if d': "adents a d' = Some (y', b')" "d' \<noteq> d"
  proof -
    have y': "y' \<noteq> y" "name_ok y'" "d' \<noteq> p"
      using rel(4) [of d' y b' d b] rel(10) [OF d'(1)] d d' by (auto simp: dentry_rel_def)
    show ?thesis
    proof (rule dentry_rel_frame [OF rel(10) [OF d'(1)]])
      fix v x assume v: "in_sync s v x" "l y' = Some (inode_no x)"
      then have "inode_no x \<notin> T" using T y' by blast
      then show "icache s' v = icache s v \<and> inode_of s' (inode_no x) = inode_of s (inode_no x)"
        using objects v(1) inodes by blast
    qed (simp_all add: entries d'(2) y' names)
  qed
qed

section \<open>Each call\<close>

lemma create_refines:
  assumes "calm e" "fs_rel p dir s a" "adents a d = Some (y, b)" "S_ISDIR m \<or> S_ISREG m"
    and "afiles a y = None" "0 < aroom a" "0 < aspace a"
  shows "\<exists>s'. simplefs_create_fs_object e dir d m s = Done (0, s') \<and>
    fs_rel p dir s' (a\<lparr>afiles := (afiles a)(y \<mapsto> (if S_ISREG m then AFile [] else ADir)), aroom := aroom a - 1,
              aspace := aspace a - 1, adents := (adents a)(d \<mapsto> (y, True))\<rparr>)"
proof -
  obtain pnd dc l where view: "fs_view p dir s a pnd dc l" using assms(2) by (auto simp: fs_rel_def)
  note rel = fs_viewD [OF view]
  let ?n = "data_block_number pnd" and ?pnd = "pnd\<lparr>isize := isize pnd + 1\<rparr>"
  obtain de where de: "d \<noteq> p" "name_ok y" "dcache s d = Some de" "d_parent de = p" "d_name de = y"
    using rel(10) [OF assms(3)] by (auto simp: dentry_rel_def)
  have ly: "l y = None" using assms(5) rel(8) files_None [OF rel(7) de(2)] by simp
  have "{k. 3 \<le> k \<and> k < 32 \<and> block_free (free_blocks (sb_mem s)) k} \<noteq> {}"
    using assms(7) rel(3) unfolding free_count_def by (metis card.empty less_irrefl)
  then have cc: "can_create s p dir pnd dc d de"
    using rel(2,5,6,9) de ly assms(6) by (auto simp: can_create_def)
  obtain no j nd dc' s' where c: "simplefs_create_fs_object e dir d m s = Done (0, s')" "idle_inv s'"
    "inode_of s no = None" "lowest_free (free_blocks (sb_mem s)) j"
    "nd = \<lparr>mode = ucast m, inode_no = no, data_block_number = of_nat j, isize = 0\<rparr>" "created nd pnd p dir d s s'"
    "dcache s' d = Some (de\<lparr>d_inode := Some (next_inode s)\<rparr>)" "in_sync s' (next_inode s) nd"
    "open_dir s' p dir ?pnd dc'" "Suc (length (free dc')) = length (free dc)"
    and l': "\<forall>z. name_ok z \<longrightarrow> dir_lookup (dc', cache s' ?n) z = (if z = d_name de then Some no else dir_lookup (dc, cache s ?n) z)"
    using create_effect [OF assms(1) rel(1) cc assms(4)] by blast
  let ?l = "dir_lookup (dc', cache s' ?n)"
  have no: "no \<noteq> 1" "no \<noteq> inode_no pnd" using c(3) root_exists [OF rel(11)] rel(13) by auto
  have inodes: "inode_of s' = (inode_of s)(no \<mapsto> nd, inode_no pnd \<mapsto> ?pnd)" using c(5,6) by (simp add: created_def)
  have same: "\<forall>z. name_ok z \<and> z \<noteq> y \<longrightarrow> ?l z = l z" using l' rel(6) de(5) by simp
  have fresh: "l z \<noteq> Some no" if "name_ok z" for z using links_okD [OF rel(7) that, of no] c(3) by force
  have new: "?l y = Some no" using l' de by simp
  let ?T = "{no, inode_no pnd}"
  have T: "\<forall>z k. name_ok z \<and> z \<noteq> y \<and> l z = Some k \<longrightarrow> k \<notin> ?T" using fresh links_okD [OF rel(7)] by (metis insertE singletonD)
  have keep: "\<forall>k. k \<notin> ?T \<longrightarrow> inode_of s' k = inode_of s k" using inodes by simp
  have blocks: "\<forall>n. n \<noteq> 0 \<and> n \<noteq> 1 \<and> (\<forall>k x. k \<in> ?T \<and> inode_of s k = Some x \<longrightarrow> n \<noteq> data_block_number x) \<longrightarrow> cache s' n = cache s n"
    using rel(13) c(6) by (auto simp: created_def)
  have objects: "\<forall>v x. in_sync s v x \<and> inode_no x \<notin> ?T \<longrightarrow> icache s' v = icache s v"
  proof (intro allI impI, elim conjE)
    fix v x assume v: "in_sync s v x" "inode_no x \<notin> ?T"
    then have "v \<noteq> dir" "v \<noteq> next_inode s" using in_sync_neq [OF v(1) rel(12)] rel(2) by (auto simp: in_sync_def)
    then show "icache s' v = icache s v" using c(6) by (simp add: created_def)
  qed
  have entries: "\<forall>w. w \<noteq> d \<and> w \<noteq> p \<longrightarrow> dcache s' w = dcache s w" using c(6) by (simp add: created_def)
  note rest = untouched [OF view assms(3) T keep blocks objects entries same]
  have "links_ok s' (inode_no pnd) ?l" "files s' ?l = (files s l)(y := map_option (node_of s') (Some nd))"
    by (rule files_update [OF rel(7) de(2), where upd = "Some nd"], simp add: same, erule (3) rest(1),
        simp add: c(5) no new fresh inodes)+
  moreover have "node_of s' nd = (if S_ISREG m then AFile [] else ADir)" by (simp add: node_of_def c(5) ucast_mode)
  moreover have "dentry_rel s' p ?l d' y' b'" if "((adents a)(d \<mapsto> (y, True))) d' = Some (y', b')" for d' y' b'
    using rest(2) [of d' y' b'] that c(5,7,8) de l' by (cases "d' = d") (auto simp: dentry_rel_def)
  ultimately have "fs_rel p dir s' (a\<lparr>afiles := (afiles a)(y \<mapsto> (if S_ISREG m then AFile [] else ADir)), aroom := aroom a - 1,
              aspace := aspace a - 1, adents := (adents a)(d \<mapsto> (y, True))\<rparr>)"
    using c(2,4-6,9,10) rel(3,4,8,9) created_heap(1) [OF cc c(6)] free_count_take [OF c(4)] assms(3)
    by (auto simp: fs_rel_def fs_view_def created_def lowest_free_def split: if_splits
      intro!: exI [of _ ?pnd] exI [of _ dc'])
  then show ?thesis using c(1) by blast
qed

lemma open_dir_frame:
  assumes "open_dir s p dir pnd dc" "dcache s' p = dcache s p" "icache s' dir = icache s dir"
    and "inode_of s' (inode_no pnd) = inode_of s (inode_no pnd)" "cache s' (data_block_number pnd) = cache s (data_block_number pnd)"
  shows "open_dir s' p dir pnd dc"
  using assms by (auto simp: open_dir_def intro: in_sync_frame)

lemma lookup_refines:
  assumes "calm e" "keeps_type e" "fs_rel p dir s a" "adents a d = Some (y, False)"
  shows "\<exists>s'. simplefs_lookup e dir d s = Done (0, s') \<and>
    fs_rel p dir s' (if afiles a y = None then a else a\<lparr>adents := (adents a)(d \<mapsto> (y, True))\<rparr>)"
proof -
  obtain pnd dc l where view: "fs_view p dir s a pnd dc l" using assms(3) by (auto simp: fs_rel_def)
  note rel = fs_viewD [OF view]
  obtain de where de: "d \<noteq> p" "name_ok y" "dcache s d = Some de" "d_parent de = p" "d_name de = y"
    using rel(10) [OF assms(4)] by (auto simp: dentry_rel_def)
  show ?thesis
  proof (cases "afiles a y")
    case None
    then have "l y = None" using files_None [OF rel(7) de(2)] rel(8) by simp
    then have "simplefs_lookup e dir d s = Done (0, s)" using lookup_absent [OF de(3,4) rel(5)] de(5) rel(6) by simp
    then show ?thesis using None assms(3) by simp
  next
    case (Some x)
    then obtain no where no: "l y = Some no" using files_None [OF rel(7) de(2)] rel(8) by fastforce
    then obtain nd where nd: "inode_of s no = Some nd" using links_okD [OF rel(7) de(2)] by metis
    have dir: "dir \<noteq> next_inode s" using rel(2,12) by (auto simp: in_sync_def)
    have look: "dir_lookup (dc, cache s (data_block_number pnd)) (d_name de) = Some no" using no de(5) rel(6) by simp
    obtain vi s' where s': "simplefs_lookup e dir d s = Done (0, s')" "idle_inv s'" "in_sync s' (next_inode s) nd"
      "icache s' = (icache s)(next_inode s \<mapsto> vi)" "dcache s' = (dcache s)(d \<mapsto> de\<lparr>d_inode := Some (next_inode s)\<rparr>)"
      "cache s' = cache s" "sb_mem s' = sb_mem s" "next_inode s' = Suc (next_inode s)"
      using lookup_found [OF assms(1,2) rel(1,5) de(3,4) look nd dir] by blast
    have inodes: "inode_of s' = inode_of s" by (rule inode_of_cong) (simp add: s'(6))
    have files: "files s' l = files s l" by (rule files_cong [OF s'(6)])
    have links: "links_ok s' (inode_no pnd) l" using rel(7) inodes by (simp add: links_ok_def)
    have op: "open_dir s' p dir pnd dc" using s' de(1) dir inodes by (intro open_dir_frame [OF rel(5)]) simp_all
    have "dentry_rel s' p l d' y' b'" if "((adents a)(d \<mapsto> (y, True))) d' = Some (y', b')" for d' y' b'
    proof (cases "d' = d")
      case True
      have "inode_no nd = no" using inode_of_Some [OF rel(11) nd] by simp
      then show ?thesis using True that s'(3,5) de no by (auto simp: dentry_rel_def)
    next
      case False
      then have rel': "dentry_rel s p l d' y' b'" using rel(10) that by simp
      then show ?thesis
        by (rule dentry_rel_frame) (use s' False rel(2) inodes in \<open>auto simp: in_sync_def\<close>)
    qed
    then have "fs_view p dir s' (a\<lparr>adents := (adents a)(d \<mapsto> (y, True))\<rparr>) pnd dc l"
      using s' op links files rel(2-4,6,8,9) assms(4) by (auto simp: fs_view_def split: if_splits)
    then show ?thesis using s'(1) Some by (auto simp: fs_rel_def)
  qed
qed

text \<open>A bound name whose node is a file: its inode and its contents.\<close>

lemma bound_file:
  assumes view: "fs_view p dir s a pnd dc l" and d: "adents a d = Some (y, True)" "afiles a y = Some x"
  obtains v nd de where "name_ok y" "l y = Some (inode_no nd)" "open_file s d v nd" "x = node_of s nd"
    "inode_of s (inode_no nd) = Some nd" "inode_no nd \<noteq> 1" "inode_no nd \<noteq> inode_no pnd"
    "S_ISREG (ucast (mode nd)) \<Longrightarrow> unat (file_size nd) \<le> BLOCK_SIZE"
    "d \<noteq> p" "dcache s d = Some de" "d_parent de = p" "d_name de = y" "d_inode de = Some v" "in_sync s v nd"
proof -
  note rel = fs_viewD [OF view]
  obtain de v nd where de: "d \<noteq> p" "name_ok y" "dcache s d = Some de" "d_parent de = p" "d_name de = y"
    "d_inode de = Some v" "in_sync s v nd" "l y = Some (inode_no nd)"
    using rel(10) [OF d(1)] by (auto simp: dentry_rel_def)
  have nd: "inode_of s (inode_no nd) = Some nd" using de(7) by (simp add: in_sync_def)
  moreover have "open_file s d v nd" using de by (simp add: open_file_def)
  moreover have "x = node_of s nd" using d(2) rel(8) de(2,8) nd by (simp add: files_def)
  ultimately show thesis using links_okD [OF rel(7) de(2,8)] de by (intro that [of nd v de]) (metis option.inject)+
qed

lemma blk_read_written: "pos \<le> n \<Longrightarrow> blk_read 0 (pos + length bs) (blk_write pos bs b) = take pos (blk_read 0 n b) @ bs"
  by (auto simp: list_eq_iff_nth_eq blk_write_def nth_append)

lemma write_refines:
  assumes "calm e" "fs_rel p dir s a" "adents a d = Some (y, True)" "afiles a y = Some (AFile bs)"
    and "unat pos \<le> length bs" "unat pos + length buf \<le> BLOCK_SIZE"
  shows "\<exists>pos' s'. simplefs_write e d buf pos s = Done ((int (length buf), pos'), s') \<and>
    fs_rel p dir s' (a\<lparr>afiles := (afiles a)(y \<mapsto> AFile (take (unat pos) bs @ buf))\<rparr>)"
proof -
  obtain pnd dc l where view: "fs_view p dir s a pnd dc l" using assms(2) by (auto simp: fs_rel_def)
  note rel = fs_viewD [OF view]
  obtain v nd de where nd: "name_ok y" "l y = Some (inode_no nd)" "open_file s d v nd" "AFile bs = node_of s nd"
    "inode_of s (inode_no nd) = Some nd" "inode_no nd \<noteq> 1" "inode_no nd \<noteq> inode_no pnd" "d \<noteq> p" "in_sync s v nd"
    and de: "dcache s d = Some de" "d_parent de = p" "d_name de = y" "d_inode de = Some v"
    by (rule bound_file [OF view assms(3,4)]) blast
  let ?n = "data_block_number nd" and ?nd = "nd\<lparr>isize := pos + of_nat (length buf)\<rparr>"
  have reg: "S_ISREG (ucast (mode nd))" "bs = blk_read 0 (unat (file_size nd)) (cache s ?n)"
    using nd(4) by (auto simp: node_of_def split: if_splits)
  obtain s' where s': "simplefs_write e d buf pos s = Done ((int (length buf), isize ?nd), s')" "idle_inv s'" "open_file s' d v ?nd"
    "inode_of s' = (inode_of s)(inode_no nd \<mapsto> ?nd)" "cache s' ?n = blk_write (unat pos) buf (cache s ?n)"
    "\<And>m. m \<noteq> 1 \<Longrightarrow> m \<noteq> ?n \<Longrightarrow> cache s' m = cache s m" "sb_mem s' = sb_mem s" "next_inode s' = next_inode s" "dcache s' = dcache s"
    "\<And>w. w \<noteq> v \<Longrightarrow> icache s' w = icache s w"
    using write_effect [OF assms(1) rel(1) nd(3) assms(6) refl refl] by blast
  have dn: "data_block_number pnd \<noteq> 1" "data_block_number pnd \<noteq> ?n"
    using inode_of_block(4) [OF rel(11,13)] inode_of_block_inj [OF rel(11,13) nd(5)] nd(7) by auto
  have l: "dir_lookup (dc, cache s' (data_block_number pnd)) = l" using s'(6) dn rel(6) by simp
  have size: "unat (isize ?nd) = unat pos + length buf" using assms(6) by (simp add: unat_word_ariths unat_of_nat)
  have uniq: "l z \<noteq> Some (inode_no nd)" if "name_ok z" "z \<noteq> y" for z
    using links_okD [OF rel(7) nd(1,2)] that by metis
  have vd: "v \<noteq> dir" using in_sync_neq [OF nd(9) rel(12) nd(7)] .
  let ?T = "{inode_no nd}"
  have T: "\<forall>z k. name_ok z \<and> z \<noteq> y \<and> l z = Some k \<longrightarrow> k \<notin> ?T" using uniq by auto
  have keep: "\<forall>k. k \<notin> ?T \<longrightarrow> inode_of s' k = inode_of s k" using s'(4) by simp
  have blocks: "\<forall>n. n \<noteq> 0 \<and> n \<noteq> 1 \<and> (\<forall>k x. k \<in> ?T \<and> inode_of s k = Some x \<longrightarrow> n \<noteq> data_block_number x) \<longrightarrow> cache s' n = cache s n"
    using s'(6) nd(5) by auto
  have objects: "\<forall>w x. in_sync s w x \<and> inode_no x \<notin> ?T \<longrightarrow> icache s' w = icache s w"
    using in_sync_neq [OF _ nd(9)] s'(10) by blast
  have entries: "\<forall>w. w \<noteq> d \<and> w \<noteq> p \<longrightarrow> dcache s' w = dcache s w" using s'(9) by simp
  have same: "\<forall>z. name_ok z \<and> z \<noteq> y \<longrightarrow> l z = l z" by simp
  note rest = untouched [OF view assms(3) T keep blocks objects entries same]
  have upd: "links_ok s' (inode_no pnd) l" "files s' l = (files s l)(y := map_option (node_of s') (Some ?nd))"
    by (rule files_update [OF rel(7) nd(1), where upd = "Some ?nd"], rule refl, erule (3) rest(1),
        use s'(4) nd(2,6,7) uniq size assms(6) in simp)+
  have node: "node_of s' ?nd = AFile (take (unat pos) bs @ buf)"
    using reg size s'(5) assms(5) blk_read_written [of "unat pos" "unat (file_size nd)" buf] by (simp add: node_of_def)
  have op: "open_dir s' p dir pnd dc"
    using s' dn nd(7) vd by (intro open_dir_frame [OF rel(5)]) simp_all
  have "dentry_rel s' p l d' y' b'" if d': "adents a d' = Some (y', b')" for d' y' b'
  proof (cases "d' = d")
    case True
    then have "y' = y" "b'" using d' assms(3) by simp_all
    moreover have "in_sync s' v ?nd" using s'(3) by (simp add: open_file_def)
    then have "\<exists>v nd. d_inode de = Some v \<and> in_sync s' v nd \<and> l y = Some (inode_no nd)"
      using de(4) nd(2) by (intro exI [of _ v] exI [of _ ?nd]) simp
    ultimately show ?thesis using True nd(1,8) de s'(9) by (simp add: dentry_rel_def)
  next
    case False
    then show ?thesis using rest(2) d' by simp
  qed
  then have "fs_view p dir s' (a\<lparr>afiles := (afiles a)(y \<mapsto> AFile (take (unat pos) bs @ buf))\<rparr>) pnd dc l"
    using s'(2,7,8) op l upd node rel(2-4,8,9) s'(10) nd(9) by (auto simp: fs_view_def in_sync_def) (metis option.distinct(1))
  then show ?thesis using s'(1) by (auto simp: fs_rel_def)
qed

lemma fs_rel_tick: "fs_rel p dir (s\<lparr>tick := t\<rparr>) a \<longleftrightarrow> fs_rel p dir s a"
proof -
  have "inode_of (s\<lparr>tick := t\<rparr>) = inode_of s" "files (s\<lparr>tick := t\<rparr>) = files s"
    by (rule inode_of_cong, simp, rule ext, rule files_cong, simp)
  then show ?thesis
    by (simp add: fs_rel_def fs_view_def idle_inv_def fs_inv_def unlocked_def open_dir_def in_sync_def links_ok_def dentry_rel_def)
qed

lemma read_refines:
  assumes "calm e" "fs_rel p dir s a" "adents a d = Some (y, True)" "afiles a y = Some (AFile bs)"
  shows "\<exists>pos' s'. simplefs_read e d n 0 s = Done ((int (length (take (unat n) bs)), take (unat n) bs, pos'), s') \<and>
    fs_rel p dir s' a"
proof -
  obtain pnd dc l where view: "fs_view p dir s a pnd dc l" using assms(2) by (auto simp: fs_rel_def)
  obtain v nd de where nd: "open_file s d v nd" "AFile bs = node_of s nd"
    "S_ISREG (ucast (mode nd)) \<Longrightarrow> unat (file_size nd) \<le> BLOCK_SIZE" "in_sync s v nd" "dcache s d = Some de" "d_inode de = Some v"
    by (rule bound_file [OF view assms(3,4)]) blast
  have reg: "S_ISREG (ucast (mode nd))" "bs = blk_read 0 (unat (file_size nd)) (cache s (data_block_number nd))"
    using nd(2) by (auto simp: node_of_def split: if_splits)
  show ?thesis
  proof (cases "file_size nd = 0")
    case True
    then have "simplefs_read e d n 0 s = Done ((0, [], 0), s)"
      using nd(5,6) in_sync_private [OF nd(4)] by (simp add: simplefs_read_def get_dentry_def)
    then show ?thesis using True reg(2) assms(2) by simp
  next
    case False
    have min: "unat (min (file_size nd) n) = min (unat n) (unat (file_size nd))" by (auto simp: min_def word_le_nat_alt)
    have "0 < file_size nd" using False by (simp add: word_neq_0_conv)
    moreover have "unat (min (file_size nd) n) \<le> BLOCK_SIZE" using nd(3) [OF reg(1)] min by simp
    ultimately show ?thesis
      using open_file_read [OF assms(1) nd(1), of 0 n] min reg(2) assms(2) by (simp add: fs_rel_tick)
  qed
qed

lemma unlink_refines:
  assumes "calm e" "fs_rel p dir s a" "adents a d = Some (y, True)" "afiles a y \<noteq> None"
  shows "\<exists>s'. simplefs_unlink e dir d s = Done (0, s') \<and>
    fs_rel p dir s' (a\<lparr>afiles := (afiles a)(y := None), aroom := Suc (aroom a), adents := (adents a)(d := None)\<rparr>)"
proof -
  obtain pnd dc l where view: "fs_view p dir s a pnd dc l" using assms(2) by (auto simp: fs_rel_def)
  note rel = fs_viewD [OF view]
  obtain x where "afiles a y = Some x" using assms(4) by blast
  then obtain v nd de where nd: "name_ok y" "l y = Some (inode_no nd)" "inode_of s (inode_no nd) = Some nd"
    "inode_no nd \<noteq> 1" "inode_no nd \<noteq> inode_no pnd" "d \<noteq> p" "in_sync s v nd"
    and de: "dcache s d = Some de" "d_parent de = p" "d_name de = y" "d_inode de = Some v"
    by (rule bound_file [OF view assms(3)]) blast
  let ?n = "data_block_number pnd" and ?pnd = "pnd\<lparr>isize := isize pnd - 1\<rparr>"
  have cu: "can_unlink s p dir pnd dc d de v nd" using rel(5,6) nd de by (simp add: can_unlink_def)
  obtain dc' s' where u: "simplefs_unlink e dir d s = Done (0, s')" "idle_inv s'" "unlinked nd pnd p dir d s s'"
    "open_dir s' p dir ?pnd dc'" "length (free dc') = Suc (length (free dc))"
    and l': "\<forall>z. name_ok z \<longrightarrow> dir_lookup (dc', cache s' ?n) z = (if z = d_name de then None else dir_lookup (dc, cache s ?n) z)"
    using unlink_effect [OF assms(1) rel(1) cu] by blast
  let ?l = "dir_lookup (dc', cache s' ?n)"
  have inodes: "inode_of s' = (inode_of s)(inode_no pnd \<mapsto> ?pnd, inode_no nd := None)"
    and frame: "w \<noteq> dir \<Longrightarrow> icache s' w = icache s w" "w' \<noteq> d \<Longrightarrow> w' \<noteq> p \<Longrightarrow> dcache s' w' = dcache s w'"
      "b \<noteq> 0 \<Longrightarrow> b \<noteq> 1 \<Longrightarrow> b \<noteq> ?n \<Longrightarrow> cache s' b = cache s b" "free_blocks (sb_mem s') = free_blocks (sb_mem s)"
      "next_inode s' = next_inode s" for w w' b
    using u(3) by (simp_all add: unlinked_def)
  have same: "\<forall>z. name_ok z \<and> z \<noteq> y \<longrightarrow> ?l z = l z" using l' rel(6) de(3) by simp
  let ?T = "{inode_no nd, inode_no pnd}"
  have T: "\<forall>z k. name_ok z \<and> z \<noteq> y \<and> l z = Some k \<longrightarrow> k \<notin> ?T"
    using links_okD [OF rel(7) nd(1,2)] links_okD [OF rel(7)] by (metis insertE singletonD)
  have keep: "\<forall>k. k \<notin> ?T \<longrightarrow> inode_of s' k = inode_of s k" using inodes by simp
  have blocks: "\<forall>n. n \<noteq> 0 \<and> n \<noteq> 1 \<and> (\<forall>k x. k \<in> ?T \<and> inode_of s k = Some x \<longrightarrow> n \<noteq> data_block_number x) \<longrightarrow> cache s' n = cache s n"
    using frame(3) rel(13) by auto
  have objects: "\<forall>w x. in_sync s w x \<and> inode_no x \<notin> ?T \<longrightarrow> icache s' w = icache s w"
    using in_sync_neq [OF _ rel(12)] frame(1) by blast
  have entries: "\<forall>w. w \<noteq> d \<and> w \<noteq> p \<longrightarrow> dcache s' w = dcache s w" using frame(2) by simp
  note rest = untouched [OF view assms(3) T keep blocks objects entries same]
  have upd: "links_ok s' (inode_no pnd) ?l" "files s' ?l = (files s l)(y := map_option (node_of s') None)"
    by (rule files_update [OF rel(7) nd(1), where upd = None], simp add: same, erule (3) rest(1), use l' nd(1) de(3) in simp)+
  have "dentry_rel s' p ?l d' y' b'" if "((adents a)(d := None)) d' = Some (y', b')" for d' y' b'
    using rest(2) [of d' y' b'] that by (auto split: if_splits)
  moreover have "dir < next_inode s" using rel(2,12) by (auto simp: in_sync_def) (metis linorder_not_le option.distinct(1))
  ultimately have "fs_view p dir s' (a\<lparr>afiles := (afiles a)(y := None), aroom := Suc (aroom a), adents := (adents a)(d := None)\<rparr>) ?pnd dc' ?l"
    using u(2,4,5) upd rel(2-4,8,9) frame(1,4,5) by (auto simp: fs_view_def split: if_splits)
  then show ?thesis using u(1) by (auto simp: fs_rel_def)
qed

section \<open>Sequences of calls\<close>

fun spec_run :: "('c \<Rightarrow> 'a \<Rightarrow> ('r \<times> 'a) option) \<Rightarrow> 'c list \<Rightarrow> 'a \<Rightarrow> ('r list \<times> 'a) option" where
  "spec_run spec [] a = Some ([], a)"
| "spec_run spec (c # cs) a =
     (case spec c a of None \<Rightarrow> None | Some (r, a) \<Rightarrow> map_option (\<lambda>(rs, a). (r # rs, a)) (spec_run spec cs a))"

fun impl_run :: "('c \<Rightarrow> 's \<Rightarrow> ('r \<times> 's) outcome) \<Rightarrow> 'c list \<Rightarrow> 's \<Rightarrow> ('r list \<times> 's) outcome" where
  "impl_run impl [] s = Done ([], s)"
| "impl_run impl (c # cs) s = bnd (impl c s) (\<lambda>(r, s). bnd (impl_run impl cs s) (\<lambda>(rs, s). Done (r # rs, s)))"

text \<open>
  A forward simulation: in a good environment the implementation has a step without fault for every step of the
  specification, with the same result.
\<close>

locale simulation =
  fixes R :: "'s \<Rightarrow> 'a \<Rightarrow> bool" and spec :: "'c \<Rightarrow> 'a \<Rightarrow> ('r \<times> 'a) option"
    and impl :: "'e \<Rightarrow> 'c \<Rightarrow> 's \<Rightarrow> ('r \<times> 's) outcome" and good :: "'e \<Rightarrow> bool"
  assumes step: "\<lbrakk>good e; R s a; spec c a = Some (r, a')\<rbrakk> \<Longrightarrow> \<exists>s'. impl e c s = Done (r, s') \<and> R s' a'"
begin

lemma run:
  "\<lbrakk>good e; R s a; spec_run spec cs a = Some (rs, a')\<rbrakk> \<Longrightarrow> \<exists>s'. impl_run (impl e) cs s = Done (rs, s') \<and> R s' a'"
proof (induction cs arbitrary: s a rs)
  case Nil
  then show ?case by simp
next
  case (Cons c cs)
  obtain r b rs' where b: "spec c a = Some (r, b)" "spec_run spec cs b = Some (rs', a')" "rs = r # rs'"
    using Cons.prems(3) by (auto split: option.splits)
  obtain s1 where s1: "impl e c s = Done (r, s1)" "R s1 b" using step [OF Cons.prems(1,2) b(1)] by blast
  then show ?case using Cons.IH [OF Cons.prems(1) s1(2) b(2)] b(3) by auto
qed

end

lemma fs_call_step:
  assumes "calm e" "keeps_type e" "fs_rel p dir s a" "afs_step c a = Some (r, a')"
  shows "\<exists>s'. fs_call dir e c s = Done (r, s') \<and> fs_rel p dir s' a'"
proof (cases c)
  case (Creat d m)
  then obtain y where y: "adents a d = Some (y, False)" using assms(4) by (auto split: option.splits bool.splits)
  show ?thesis
  proof (cases "S_ISDIR m \<or> S_ISREG m")
    case True
    then have "afiles a y = None" "0 < aroom a" "0 < aspace a" using assms(4) y Creat by (auto split: if_splits)
    then show ?thesis using create_refines [OF assms(1,3) y True] assms(4) y Creat True by (auto simp: simplefs_create_def)
  next
    case False
    obtain pnd dc l where view: "fs_view p dir s a pnd dc l" using assms(3) by (auto simp: fs_rel_def)
    note rel = fs_viewD [OF view]
    obtain de where de: "dcache s d = Some de" "d_parent de = p" using rel(10) [OF y] by (auto simp: dentry_rel_def)
    obtain pd where pd: "dcache s p = Some pd" "d_inode pd = Some dir" "d_fsdata pd = Some (Inr dc)"
      using rel(5) by (auto simp: open_dir_def)
    have "unlocked s" "inodes_count (sb_mem s) < 64"
      using rel(1) store_inv_count_small by (auto simp: idle_inv_def fs_inv_def)
    then have "simplefs_create_fs_object e dir d m s = Done (- EINVAL, s\<lparr>tick := tick s + 2\<rparr>)"
      using create_refused [OF assms(1) _ de(1), of pd dir] pd de(2) False by auto
    then show ?thesis using False assms(3,4) y Creat by (auto simp: simplefs_create_def fs_rel_tick)
  qed
next
  case (Lookup d)
  then obtain y where "adents a d = Some (y, False)" using assms(4) by (auto split: option.splits bool.splits)
  then show ?thesis using lookup_refines [OF assms(1-3)] assms(4) Lookup by force
next
  case (Write d pos buf)
  then obtain y bs where "adents a d = Some (y, True)" "afiles a y = Some (AFile bs)"
    using assms(4) by (auto split: option.splits bool.splits anode.splits)
  then show ?thesis using write_refines [OF assms(1,3), of d y bs pos buf] assms(4) Write by (auto split: if_splits)
next
  case (Read d n)
  then obtain y bs where "adents a d = Some (y, True)" "afiles a y = Some (AFile bs)"
    using assms(4) by (auto split: option.splits bool.splits anode.splits)
  then show ?thesis using read_refines [OF assms(1,3), of d y bs n] assms(4) Read by auto
next
  case (Unlink d)
  then obtain y where "adents a d = Some (y, True)" "afiles a y \<noteq> None"
    using assms(4) by (auto split: option.splits bool.splits if_splits)
  then show ?thesis using unlink_refines [OF assms(1,3), of d y] assms(4) Unlink by auto
qed

interpretation sfs: simulation "fs_rel p dir" afs_step "fs_call dir" "\<lambda>e. calm e \<and> keeps_type e" for p dir
  by unfold_locales (use fs_call_step in blast)

section \<open>Properties\<close>

text \<open>C4: simplefs implements a map from names to files.  If the state of the kernel is related to an abstract file
  system and a sequence of creations, lookups, writes, reads and deletions is within its contract, then the handlers
  run through the whole sequence without a fault, return for every call the result of the abstract file
  system, and end in a related state.  In particular the invariant holds, every file has exactly the contents written to
  it, and no call affects the contents of another name.\<close>

theorem calls_refine_map:
  assumes "calm e" "keeps_type e" "fs_rel p dir s a" "spec_run afs_step cs a = Some (rs, a')"
  shows "\<exists>s'. impl_run (fs_call dir e) cs s = Done (rs, s') \<and> fs_rel p dir s' a'"
  using sfs.run [OF conjI [OF assms(1,2)] assms(3,4)] .

definition listed_afs :: afs where
  "listed_afs = \<lparr>afiles = [[97] \<mapsto> AFile []], aroom = 14, aspace = free_count (free_blocks (sb_mem listed)),
     adents = [1 \<mapsto> ([97], True), 2 \<mapsto> ([98], False)]\<rparr>"

lemma listed_rel: "fs_rel 0 0 listed listed_afs"
proof -
  let ?l = "dir_lookup (root_cache, cache listed 2)"
  have n: "data_block_number root_inode = 2" "inode_no root_inode = 1" "inode_no sample_inode = 2" "isize sample_inode = 0"
    "mode sample_inode = 0x8000" by (simp_all add: root_inode_def sample_inode_def)
  have l: "?l y = (if y = [97] then Some 2 else None)" if "name_ok y" for y
    using that listed_lookup by (simp add: name_ok_def)
  have ok: "name_ok [97]" "name_ok [98]" by (simp_all add: name_ok_def)
  have i2: "inode_of listed 2 = Some sample_inode" using listed_sync(2) n(3) by (simp add: in_sync_def)
  have "links_ok listed 1 ?l" "files listed ?l = [[97] \<mapsto> node_of listed sample_inode]"
    by (rule single_file [OF _ ok(1), where nd = sample_inode and pno = 1]; simp add: l i2 n)+
  moreover have "node_of listed sample_inode = AFile []" using n(4,5) by (simp add: node_of_def S_ISREG_def)
  moreover have "dcache listed 1 = Some dentry_a" "dcache listed 2 = Some dentry_b" "\<forall>v \<ge> next_inode listed. icache listed v = None"
    by (simp_all add: listed_def one_file_def dentry_a_def dentry_b_def)
  moreover have "length (free root_cache) = 14" by (simp add: root_cache_def)
  ultimately have "fs_view 0 0 listed listed_afs root_inode root_cache ?l"
    using listed_inv listed_open listed_sync(2) l ok n
    by (auto simp: fs_view_def listed_afs_def dentry_rel_def dentry_a_def dentry_b_def split: if_splits)
  then show ?thesis by (auto simp: fs_rel_def)
qed

theorem calls_refine_map_witness:
  "\<exists>s'. impl_run (fs_call 0 quiet_env) [Creat 2 0x81A4, Write 2 0 [104, 105], Read 1 5, Unlink 1, Read 2 10] listed =
     Done ([(0, []), (2, []), (0, []), (0, []), (2, [104, 105])], s')"
proof -
  have "block_free (free_blocks (sb_mem listed)) 4" by (simp add: listed_def one_file_def one_file_free)
  then obtain j where "lowest_free (free_blocks (sb_mem listed)) j" using lowest_free_ex [of 4] by auto
  then have "0 < free_count (free_blocks (sb_mem listed))" using free_count_take by simp
  then have "spec_run afs_step [Creat 2 0x81A4, Write 2 0 [104, 105], Read 1 5, Unlink 1, Read 2 10] listed_afs =
      Some ([(0, []), (2, []), (0, []), (0, []), (2, [104, 105])],
        listed_afs\<lparr>afiles := [[98] \<mapsto> AFile [104, 105]], aspace := aspace listed_afs - 1, adents := [2 \<mapsto> ([98], True)]\<rparr>)"
    using S_ISREG_file by (simp add: listed_afs_def)
  from calls_refine_map [OF calm_quiet_env listed_rel this] show ?thesis by blast
qed

end
