(* ===== verification/Sfs_Disturbed.thy ===== *)
theory Sfs_Disturbed
  imports Sfs_File_IO Sfs_Namespace
begin

text \<open>
  The handlers in an environment in which anything may fail: which of them leave the file system as it is whatever
  happens, and what a signal at the wrong moment, or a file that is open when it is deleted, does to it.
\<close>

section \<open>Handlers that only read\<close>

text \<open>Buffers, device, locks, super block and bitmap are the same.\<close>

definition same_fs :: "'a fsstate_scheme \<Rightarrow> 'a fsstate_scheme \<Rightarrow> bool" where
  "same_fs s s' \<longleftrightarrow> cache s' = cache s \<and> disk s' = disk s \<and> dirty s' = dirty s \<and> held s' = held s \<and>
     sb_mem s' = sb_mem s \<and> imap s' = imap s"

lemma same_fs_refl [simp]: "same_fs s s"
  by (simp add: same_fs_def)

lemma same_fs_trans: "same_fs s s' \<Longrightarrow> same_fs s' s'' \<Longrightarrow> same_fs s s''"
  by (simp add: same_fs_def)

text \<open>Partial correctness: what holds of the result if there is one.\<close>

definition if_done :: "'r outcome \<Rightarrow> ('r \<Rightarrow> bool) \<Rightarrow> bool" where
  "if_done m P \<longleftrightarrow> (\<forall>r. m = Done r \<longrightarrow> P r)"

named_theorems done_rules \<open>the result of a composed operation\<close>

lemma if_done_Done [done_rules]: "P r \<Longrightarrow> if_done (Done r) P"
  by (simp add: if_done_def)

lemma if_done_Fault [done_rules]: "if_done (Fault x) P"
  by (simp add: if_done_def)

lemma if_done_bnd: "if_done m Q \<Longrightarrow> (\<And>r. Q r \<Longrightarrow> if_done (f r) P) \<Longrightarrow> if_done (bnd m f) P"
  by (auto simp: if_done_def outcome_simps)

lemma if_done_pure [done_rules]: "(\<And>r. m = Done r \<Longrightarrow> if_done (f r) P) \<Longrightarrow> if_done (bnd m f) P"
  by (auto simp: if_done_def outcome_simps)

lemma if_done_if [done_rules]: "(c \<Longrightarrow> if_done m P) \<Longrightarrow> (\<not> c \<Longrightarrow> if_done n P) \<Longrightarrow> if_done (if c then m else n) P"
  by simp

lemma if_done_prod [done_rules]: "(\<And>a b. q = (a, b) \<Longrightarrow> if_done (f a b) P) \<Longrightarrow> if_done (case q of (a, b) \<Rightarrow> f a b) P"
  by (cases q) simp

lemma if_done_option [done_rules]:
  "(q = None \<Longrightarrow> if_done m P) \<Longrightarrow> (\<And>a. q = Some a \<Longrightarrow> if_done (f a) P) \<Longrightarrow> if_done (case q of None \<Rightarrow> m | Some a \<Rightarrow> f a) P"
  by (cases q) simp_all

text \<open>The services, as rules that follow a chain of states from the first.\<close>

named_theorems same_fs_chain \<open>services that keep the file system\<close>

lemma same_fs_services [same_fs_chain]:
  "sb_bread e n s = (ok, s') \<Longrightarrow> same_fs s0 s \<Longrightarrow> same_fs s0 s'"
  "alloc e s = (ok, s') \<Longrightarrow> same_fs s0 s \<Longrightarrow> same_fs s0 s'"
  "user_copy e k s = (left, s') \<Longrightarrow> same_fs s0 s \<Longrightarrow> same_fs s0 s'"
  "current_time e s = (now, s') \<Longrightarrow> same_fs s0 s \<Longrightarrow> same_fs s0 s'"
  "new_inode e s = (q, s') \<Longrightarrow> same_fs s0 s \<Longrightarrow> same_fs s0 s'"
  "simplefs_cache_alloc e s = (p, s') \<Longrightarrow> same_fs s0 s \<Longrightarrow> same_fs s0 s'"
  by (auto simp: same_fs_def sb_bread_def alloc_def user_copy_def current_time_def new_inode_def
      simplefs_cache_alloc_def Let_def split: if_splits)

lemma same_fs_updates [simp]:
  "same_fs s0 (brelse n s) = same_fs s0 s" "same_fs s0 (upd_vinode v f s) = same_fs s0 s"
  "same_fs s0 (upd_dentry d g s) = same_fs s0 s" "same_fs s0 (inode_init_owner e v dm m s) = same_fs s0 s"
  "same_fs s0 (d_add d p s) = same_fs s0 s"
  by (simp_all add: same_fs_def brelse_def vfs_update)

lemma same_fs_build_from:
  "dir_cache_build_from e b i dc s = (ret, dc', s') \<Longrightarrow> same_fs s0 s \<Longrightarrow> same_fs s0 s'"
proof (induction e b i dc s rule: dir_cache_build_from.induct)
  case (1 e b i dc s)
  obtain ok s1 where s1: "alloc e s = (ok, s1)" by fastforce
  then have "same_fs s0 s1" using "1.prems"(2) by (rule same_fs_chain)
  then show ?case
    using "1.IH" [OF _ refl s1 [symmetric] refl] "1.prems" s1
    by (subst (asm) dir_cache_build_from.simps) (auto simp: Let_def split: if_splits)
qed

lemma same_fs_get_inode:
  "same_fs s0 s \<Longrightarrow> if_done (simplefs_get_inode e no s) (\<lambda>(p, s'). same_fs s0 s')"
  by (auto simp: if_done_def simplefs_get_inode_def mutex_lock_interruptible_def mutex_unlock_def sb_bread_def alloc_def
      brelse_def same_fs_def Let_def outcome_simps split: if_splits)

lemma same_fs_read: "if_done (simplefs_read e d len ppos s) (\<lambda>(r, s'). same_fs s s')"
  unfolding simplefs_read_def Let_def by (intro done_rules; simp) (erule same_fs_chain; simp)+

lemma same_fs_lookup: "if_done (simplefs_lookup e dir d s) (\<lambda>(r, s'). same_fs s s')"
  unfolding simplefs_lookup_def Let_def
  by (intro if_done_bnd [OF same_fs_get_inode [OF same_fs_refl]] done_rules; clarsimp?)
    (erule same_fs_chain, simp?)+

lemma same_fs_build_ptr:
  "same_fs s0 s \<Longrightarrow> if_done (dir_cache_build_ptr e p b s) (\<lambda>(p', s'). same_fs s0 s')"
  unfolding dir_cache_build_ptr_def dir_cache_build_def
  by (cases p) (auto simp: if_done_def Let_def split: prod.splits if_splits intro: same_fs_build_from same_fs_chain)

lemma same_fs_iterate: "if_done (simplefs_iterate e emit d pos ctx s) (\<lambda>(r, s'). same_fs s s')"
proof -
  have build: "same_fs s s3"
    if "simplefs_cache_alloc e s = (p, s1)" "sb_bread e n s1 = (ok, s2)" "dir_cache_build_ptr e p b s2 = Done (p', s3)"
    for p p' b n s1 ok s2 s3
    using same_fs_build_ptr [OF same_fs_services(1) [OF that(2) same_fs_services(6) [OF that(1) same_fs_refl]], of e p b] that(3)
    by (simp add: if_done_def)
  show ?thesis
    unfolding simplefs_iterate_def Let_def
  proof (rule if_done_pure, rule if_done_pure, rule if_done_bnd [where Q = "\<lambda>(p, s'). same_fs s s'"], goal_cases)
    case 1
    show ?case by (intro done_rules; clarsimp) (erule (2) build)
  next
    case 2
    then show ?case by (intro done_rules; clarsimp)
  qed
qed

text \<open>C27: Reading changes nothing, whatever happens.  In every environment, with any pattern of signals, failing allocations, failing
  reads and incomplete copies, and in every state, when \<open>simplefs_read\<close>, \<open>simplefs_lookup\<close> or \<open>simplefs_iterate\<close> return, with success or an
  error, then buffers, device, in-core super block and inode bitmap are as before and every lock is held or free as before.\<close>

theorem readers_keep_everything:
  "(\<forall>r s'. simplefs_read e d len ppos s = Done (r, s') \<longrightarrow> same_fs s s') \<and>
   (\<forall>r s'. simplefs_lookup e dir d s = Done (r, s') \<longrightarrow> same_fs s s') \<and>
   (\<forall>r s'. simplefs_iterate e emit d pos ctx s = Done (r, s') \<longrightarrow> same_fs s s')"
  using same_fs_read [of e d len ppos s] same_fs_lookup [of e dir d s] same_fs_iterate [of e emit d pos ctx s]
  by (auto simp: if_done_def)

section \<open>A single signal\<close>

text \<open>A calm environment in which one signal arrives, at the query with number \<open>n\<close>.\<close>

definition one_signal :: "kenv \<Rightarrow> nat \<Rightarrow> kenv" where
  "one_signal e n = e\<lparr>intr := (\<lambda>k. k = n)\<rparr>"

lemma one_signal_lock:
  "calm e \<Longrightarrow> mutex_lock_interruptible (one_signal e n) l s =
     (if tick s = n then Done (True, s\<lparr>tick := Suc (tick s)\<rparr>)
      else if held s l then Fault Self_deadlock
      else Done (False, s\<lparr>held := (held s)(l := True), tick := Suc (tick s)\<rparr>))"
  by (simp add: mutex_lock_interruptible_def one_signal_def)

lemma one_signal_calm:
  assumes "calm e"
  shows "sb_bread (one_signal e n) b s = (True, s\<lparr>refs := (refs s)(b := Suc (refs s b)), tick := Suc (tick s)\<rparr>)"
    "alloc (one_signal e n) s = (True, s\<lparr>tick := Suc (tick s)\<rparr>)"
    "new_inode (one_signal e n) t = (Some (next_inode t), t\<lparr>tick := Suc (tick t),
       icache := (icache t)(next_inode t := Some blank_inode), next_inode := Suc (next_inode t)\<rparr>)"
    "clock (one_signal e n) = clock e" "owner_mode (one_signal e n) = owner_mode e"
  using assms by (simp_all add: sb_bread_def alloc_def new_inode_def one_signal_def calm_def)

lemmas one_signal_simps = one_signal_lock one_signal_calm

lemma signal_sb_sync:
  "calm e \<Longrightarrow> simplefs_sb_sync (one_signal e n) s =
     Done (s\<lparr>cache := (cache s)(0 := wr_super (sb_mem s) (cache s 0)),
             disk := (disk s)(0 := wr_super (sb_mem s) (cache s 0)),
             dirty := (dirty s)(0 := False), tick := Suc (tick s)\<rparr>)"
  by (simp add: simplefs_sb_sync_def one_signal_simps buffer_defs)

lemma signal_freeblock:
  assumes "calm e" "\<not> held s simplefs_sb_lock" "lowest_free (free_blocks (sb_mem s)) j" "tick s \<noteq> n"
  shows "simplefs_sb_get_a_freeblock (one_signal e n) s =
     (let sb = (sb_mem s)\<lparr>free_blocks := free_blocks (sb_mem s) AND int_to_u64 (NOT (push_bit j 1))\<rparr> in
      Done ((0, Some (of_nat j)),
        s\<lparr>cache := (cache s)(0 := wr_super sb (cache s 0)), disk := (disk s)(0 := wr_super sb (cache s 0)),
          dirty := (dirty s)(0 := False), tick := tick s + 2, sb_mem := sb\<rparr>))"
proof -
  have "find_free_block (free_blocks (sb_mem s)) 3 = Done j" "j < 32"
    using assms(3) by (simp_all add: find_lowest_free lowest_free_def)
  then show ?thesis
    using assms by (simp add: simplefs_sb_get_a_freeblock_def one_signal_simps signal_sb_sync unlock_held shl_int_def Let_def)
qed

lemma signal_inode_add: "calm e \<Longrightarrow> tick s = n \<Longrightarrow> simplefs_inode_add (one_signal e n) nd s = Done (s\<lparr>tick := Suc (tick s)\<rparr>)"
  by (simp add: simplefs_inode_add_def one_signal_simps)

lemma signal_create_checks:
  assumes "calm e" "tick s \<noteq> n" "\<not> held s simplefs_inodes_mgmt_lock" "inodes_count (sb_mem s) < 64" "S_ISDIR m \<or> S_ISREG m"
  shows "create_checks (one_signal e n) m s = Done (0, s\<lparr>tick := Suc (tick s)\<rparr>)"
  using assms
  by (auto simp: create_checks_def simplefs_sb_get_objects_count_def one_signal_simps unlock_held out_param_def linorder_not_le)

lemma signal_create_inode:
  assumes "calm e" "ffz (imap s) = Done ino"
    and "nd = \<lparr>mode = ucast m, inode_no = of_nat ino, data_block_number = 0, isize = 0\<rparr>"
  shows "create_inode (one_signal e n) m s = Done (Some (next_inode s, nd),
     s\<lparr>tick := tick s + 3,
       icache := (icache s)(next_inode s \<mapsto> created_inode e m (clock e (Suc (tick s))) ino nd),
       next_inode := Suc (next_inode s)\<rparr>)"
  using assms
  by (simp add: create_inode_def one_signal_simps current_time_def upd_vinode_def blank_inode_def created_inode_def Let_def)

lemma signal_create_record:
  assumes "calm e" "dcache s p = Some pd" "d_fsdata pd = Some (Inr dc)" "SIMPLEFS_INODE (Some dir) s = Done parent"
    and "b = data_block_number parent"
    and "dir_add_entry name no (free_cache_entry_get dc) dc (cache s b) = Done (dc', b')"
  shows "create_record (one_signal e n) dir p name no s = Done (parent,
     s\<lparr>cache := (cache s)(b := b'), disk := (disk s)(b := b'), dirty := (dirty s)(b := False),
       tick := Suc (tick s), dcache := (dcache s)(p \<mapsto> pd\<lparr>d_fsdata := Some (Inr dc')\<rparr>)\<rparr>)"
  using assms
  by (simp add: create_record_def one_signal_simps get_dentry_def deref_cache_def buffer_defs upd_dentry_def Let_def)

lemma signal_create_count:
  assumes "calm e" "n < tick s" "\<not> held s simplefs_inodes_mgmt_lock" "\<not> held s simplefs_sb_lock"
    and "held s simplefs_directory_children_update_lock"
    and "simplefs_inode_search (cache s 1) (inode_no parent) 0 = Done (Some k)"
    and "parent' = parent\<lparr>isize := isize parent + 1\<rparr>"
  shows "create_count (one_signal e n) dir parent s = Done (0,
     s\<lparr>cache := (cache s)(1 := wr_inode k parent' (cache s 1)), disk := (disk s)(1 := wr_inode k parent' (cache s 1)),
       dirty := (dirty s)(1 := False), held := (held s)(simplefs_directory_children_update_lock := False),
       tick := tick s + 3,
       icache := (icache s)(dir := map_option (\<lambda>vi. vi\<lparr>i_private := Some parent'\<rparr>) (icache s dir))\<rparr>)"
  using assms
  by (simp add: create_count_def simplefs_inode_save_def one_signal_simps unlock_held unlock_return_def upd_private_def
      upd_vinode_def buffer_defs Let_def)

lemma signal_create:
  assumes "calm e" "unlocked s" "dcache s d = Some de" "d_parent de = p" "d \<noteq> p"
    and pd: "dcache s p = Some pd" "d_inode pd = Some dir" "d_fsdata pd = Some (Inr dc)"
    and dir: "icache s dir = Some vi" "i_private vi = Some pnd" "dir \<noteq> next_inode s"
    and m: "inodes_count (sb_mem s) < 64" "S_ISDIR m \<or> S_ISREG m"
    and ino: "ffz (imap s) = Done (Suc k)" "Suc k < 64"
    and fb: "lowest_free (free_blocks (sb_mem s)) j"
    and n: "n = data_block_number pnd" "n \<noteq> 0" "n \<noteq> 1"
    and add: "dir_add_entry (d_name de) (of_nat (Suc k)) (free_cache_entry_get dc) dc (cache s n) = Done (dc', b')"
    and sr: "simplefs_inode_search (cache s 1) (inode_no pnd) 0 = Done (Some kp)"
    and pnd': "pnd' = pnd\<lparr>isize := isize pnd + 1\<rparr>"
    and sb: "sb = (sb_mem s)\<lparr>free_blocks := free_blocks (sb_mem s) AND int_to_u64 (NOT (push_bit j 1))\<rparr>"
    and b0: "b0 = wr_super sb (cache s 0)"
  shows "\<exists>s'. simplefs_create_fs_object (one_signal e (tick s + 7)) dir d m s = Done (0, s') \<and>
     cache s' = (cache s)(0 := b0, n := b', 1 := wr_inode kp pnd' (cache s 1)) \<and>
     disk s' = (disk s)(0 := b0, n := b', 1 := wr_inode kp pnd' (cache s 1)) \<and>
     sb_mem s' = sb \<and> imap s' = imap s \<and> held s' = held s \<and>
     icache s' dir = Some (vi\<lparr>i_private := Some pnd'\<rparr>) \<and>
     dcache s' = (dcache s)(p \<mapsto> pd\<lparr>d_fsdata := Some (Inr dc')\<rparr>, d \<mapsto> de\<lparr>d_inode := Some (next_inode s)\<rparr>)"
proof -
  show ?thesis
    using assms(1-5) pd dir m ino fb n add sr
    by (simp add: simplefs_create_fs_object_def one_signal_simps signal_create_checks signal_create_inode signal_freeblock
        signal_inode_add signal_create_record signal_create_count unlock_held vfs_access vfs_update created_inode_def Let_def
        pnd' sb b0 fun_upd_twist del: of_nat_Suc)
qed

text \<open>C28: A signal during a creation leaves a name without an object.  \<open>simplefs_inode_add\<close> has no result, so a signal at its first lock
  is not noticed: \<open>simplefs_create_fs_object\<close> returns 0, the name is in the directory, in cache and on the device, the parent counts
  it, a data block is taken, but no inode has its number, which the next creation will give to another object.\<close>

theorem create_interrupted_dangles:
  assumes "calm e" "idle_inv s" and cc: "can_create s p dir pnd dc d de" and m: "S_ISDIR m \<or> S_ISREG m"
  shows "\<exists>no dc' s'. simplefs_create_fs_object (one_signal e (tick s + 7)) dir d m s = Done (0, s') \<and> idle_inv s' \<and>
    inode_of s' = (inode_of s)(inode_no pnd \<mapsto> pnd\<lparr>isize := isize pnd + 1\<rparr>) \<and> inode_of s' no = None \<and>
    open_dir s' p dir (pnd\<lparr>isize := isize pnd + 1\<rparr>) dc' \<and>
    dir_lookup (dc', cache s' (data_block_number pnd)) (d_name de) = Some no \<and>
    disk s' (data_block_number pnd) = cache s' (data_block_number pnd) \<and> disk s' 1 = cache s' 1 \<and>
    ffz (imap s') = Done (unat no) \<and> (\<exists>j. block_free (free_blocks (sb_mem s)) j \<and> \<not> block_free (free_blocks (sb_mem s')) j)"
proof -
  let ?n = "data_block_number pnd" and ?pnd = "pnd\<lparr>isize := isize pnd + 1\<rparr>"
  have fs: "fs_inv s" using assms(2) by (simp add: idle_inv_def)
  obtain pd vi k j dc' b' where un: "unlocked s"
    and st: "store_inv (cache s 1) (imap s) (inodes_count (sb_mem s)) (free_blocks (sb_mem s))"
    and de: "dcache s d = Some de" "d_parent de = p" "d \<noteq> p"
    and pd: "dcache s p = Some pd" "d_inode pd = Some dir" "d_fsdata pd = Some (Inr dc)"
    and vi: "icache s dir = Some vi" "i_private vi = Some pnd" "i_ino vi = inode_no pnd" "dir \<noteq> next_inode s"
    and look: "inode_of s (inode_no pnd) = Some pnd" and blkno: "?n \<noteq> 0" "?n \<noteq> 1"
    and k: "ffz (imap s) = Done (Suc k)" "Suc k < 64" "k \<notin> used_slots (cache s 1)"
    and j: "lowest_free (free_blocks (sb_mem s)) j"
    and add: "dir_add_entry (d_name de) (of_nat (Suc k)) (free_cache_entry_get dc) dc (cache s ?n) = Done (dc', b')"
    and d': "dir_inv (dc', b')" "dir_lookup (dc', b') (d_name de) = Some (of_nat (Suc k))"
  proof (rule can_create_context [OF assms(2) cc refl], goal_cases)
    case (1 pd vi k j dc' b')
    have "name_ok (d_name de)" using cc by (simp add: can_create_def)
    then show ?case using 1 by (intro that [of pd vi k j dc' b']) simp_all
  qed
  note no = inode_of_Some [OF fs look]
  have sr: "simplefs_inode_search (cache s 1) (inode_no pnd) 0 = Done (Some (unat (inode_no pnd - 1)))"
    using numbered_search [OF _ no(1)] st no(2) by (simp add: store_inv_def)
  obtain s' where run: "simplefs_create_fs_object (one_signal e (tick s + 7)) dir d m s = Done (0, s')"
    and c: "cache s' 1 = wr_inode (unat (inode_no pnd - 1)) ?pnd (cache s 1)" "cache s' ?n = b'"
      "disk s' 1 = cache s' 1" "disk s' ?n = b'"
    and sb: "sb_mem s' = (sb_mem s)\<lparr>free_blocks := free_blocks (sb_mem s) AND int_to_u64 (NOT (push_bit j 1))\<rparr>"
    and misc: "imap s' = imap s" "held s' = held s" "icache s' dir = Some (vi\<lparr>i_private := Some ?pnd\<rparr>)"
      "dcache s' = (dcache s)(p \<mapsto> pd\<lparr>d_fsdata := Some (Inr dc')\<rparr>, d \<mapsto> de\<lparr>d_inode := Some (next_inode s)\<rparr>)"
    using signal_create [OF assms(1) un de pd vi(1,2,4) store_inv_count_small [OF st] m k(1,2) j
      refl blkno add sr refl refl refl] blkno by force
  have lk: "inode_of s' = (inode_of s)(inode_no pnd \<mapsto> ?pnd)"
    using no(4,5) by (rule inode_of_upd) (use no in \<open>auto simp: c inodes.rd_wr_iff\<close>)
  have none: "inode_of s (of_nat (Suc k)) = None"
    using k Suc_u64 [OF k(2)] by (simp add: inode_of_def used_slots_def del: of_nat_Suc)
  have jb: "block_free (free_blocks (sb_mem s)) j" "j < 32" using j by (simp_all add: lowest_free_def)
  have "store_inv (cache s 1) (imap s) (inodes_count (sb_mem s)) (free_blocks (sb_mem s'))"
    by (rule store_inv_clear_free [OF st]) (simp add: sb block_free_clear_mask jb)
  then have "idle_inv s'"
    using un no by (auto simp: idle_inv_def fs_inv_def unlocked_def c misc sb intro!: store_inv_save)
  moreover have "open_dir s' p dir ?pnd dc'"
    using de(3) d'(1) vi pd lk by (simp add: open_dir_def in_sync_def misc c)
  moreover have "\<not> block_free (free_blocks (sb_mem s')) j" by (simp add: sb block_free_clear_mask jb)
  moreover have "inode_of s' (of_nat (Suc k)) = None" using lk none look by auto
  ultimately show ?thesis
    using run d'(2) lk jb k(1) Suc_u64(1) [OF k(2)] by (metis c misc(1))
qed

theorem create_interrupted_dangles_witness:
  "\<exists>no s'. simplefs_create_fs_object (one_signal quiet_env (tick listed + 7)) 0 2 0x81A4 listed = Done (0, s') \<and>
     idle_inv s' \<and> inode_of s' no = None \<and> ffz (imap s') = Done (unat no)"
  using create_interrupted_dangles [OF calm_quiet_env(1) listed_inv listed_can_create, of "0x81A4"] S_ISREG_file by blast

theorem readers_keep_everything_witness:
  "\<exists>s'. simplefs_lookup (quiet_env\<lparr>intr := (\<lambda>_. True)\<rparr>) 0 1 listed = Done (- ENOENT, s') \<and> same_fs listed s'"
proof -
  obtain c where c: "used_cache_entry_get root_cache [97] = Some c"
    using listed_lookup [of "[97]"] by (auto simp: dir_lookup_def split: option.splits)
  have "\<exists>s'. simplefs_lookup (quiet_env\<lparr>intr := (\<lambda>_. True)\<rparr>) 0 1 listed = Done (- ENOENT, s')"
    using c by (simp add: simplefs_lookup_def simplefs_get_inode_def mutex_lock_interruptible_def sb_bread_def vfs_access
        listed_def one_file_def quiet_env_def Let_def)
  then show ?thesis using readers_keep_everything [THEN conjunct2, THEN conjunct1] by blast
qed

section \<open>A deleted file that is still open\<close>

lemma in_sync_distinct: "\<lbrakk>in_sync s v nd; in_sync s w nd'; inode_no nd \<noteq> inode_no nd'\<rbrakk> \<Longrightarrow> v \<noteq> w"
  by (auto simp: in_sync_def)

text \<open>The directory entry \<open>d2\<close> is ready for a creation after \<open>d\<close> has been deleted.\<close>

lemma unlinked_can_create:
  assumes "can_unlink s p dir pnd dc d de v nd" "unlinked nd pnd p dir d s s1" "open_dir s1 p dir (pnd\<lparr>isize := i\<rparr>) dc1"
    and "length (free dc1) = Suc (length (free dc))"
    and "dir_lookup (dc1, cache s1 (data_block_number pnd)) (d_name de2) = None"
    and "dcache s d2 = Some de2" "d_parent de2 = p" "d2 \<noteq> p" "d2 \<noteq> d" "name_ok (d_name de2)"
    and "\<exists>k. 3 \<le> k \<and> k < 32 \<and> block_free (free_blocks (sb_mem s)) k" "\<forall>w \<ge> next_inode s. icache s w = None"
  shows "can_create s1 p dir (pnd\<lparr>isize := i\<rparr>) dc1 d2 de2"
proof -
  have "icache s dir \<noteq> None" using assms(1) by (auto simp: can_unlink_def open_dir_def in_sync_def)
  then have "dir < next_inode s" using assms(12) by (metis linorder_not_le)
  then have "\<forall>w \<ge> next_inode s1. icache s1 w = None" using assms(2,12) by (auto simp: unlinked_def)
  moreover have "dcache s1 d2 = Some de2" using assms(2,6,8,9) by (simp add: unlinked_def)
  moreover have "free dc1 \<noteq> []" using assms(4) by auto
  moreover have "free_blocks (sb_mem s1) = free_blocks (sb_mem s)" using assms(2) by (simp add: unlinked_def)
  ultimately show ?thesis using assms(3,5,7,8,10,11) by (simp add: can_create_def)
qed

lemma stored_block_taken:
  assumes "fs_inv s" "inode_of s no = Some nd" "lowest_free (free_blocks (sb_mem s)) j"
  shows "data_block_number nd \<noteq> of_nat j"
proof -
  have j: "3 \<le> j" "j < 32" "block_free (free_blocks (sb_mem s)) j" using assms(3) by (simp_all add: lowest_free_def)
  then have "unat (data_block_number nd) \<noteq> j"
    using inode_of_Some [OF assms(1,2)] assms(1) by (auto simp: fs_inv_def store_inv_def blocks_inv_def data_block_def)
  then show ?thesis using j(2) by auto
qed

text \<open>A write through an in-core inode whose number now belongs to another inode puts the old inode in its place.\<close>

lemma write_stale:
  assumes "calm e" "idle_inv s" "dcache s d = Some de" "d_inode de = Some v" "icache s v = Some vi" "i_private vi = Some nd"
    and "inode_of s (inode_no nd) = Some nd2" "data_block_number nd \<noteq> 1" "length buf \<le> BLOCK_SIZE"
  shows "\<exists>s'. simplefs_write e d buf 0 s = Done ((int (length buf), of_nat (length buf)), s') \<and>
    inode_of s' = (inode_of s)(inode_no nd \<mapsto> nd\<lparr>isize := of_nat (length buf)\<rparr>) \<and> disk s' 1 = cache s' 1"
proof -
  have fs: "fs_inv s" and un: "unlocked s" using assms(2) by (simp_all add: idle_inv_def)
  note no = inode_of_Some [OF fs assms(7)]
  let ?k = "unat (inode_no nd - 1)" and ?nd = "nd\<lparr>isize := of_nat (length buf)\<rparr>"
  have "simplefs_inode_search (cache s 1) (inode_no nd) 0 = Done (Some ?k)"
    using numbered_search [OF _ no(1)] fs no(2,3) by (simp add: fs_inv_def store_inv_def)
  moreover have "SIMPLEFS_INODE (Some v) s = Done nd" using assms(5,6) by (simp add: vfs_access)
  ultimately obtain s' where s': "simplefs_write e d buf 0 s = Done ((int (length buf), of_nat (length buf)), s')"
    "cache s' 1 = wr_inode ?k ?nd (cache s 1)" "disk s' 1 = cache s' 1"
    using write_calm [OF assms(1) un assms(3,4), of nd 0 buf ?k] assms(8,9) by (simp add: Let_def)
  have "inode_of s' = (inode_of s)(inode_no nd \<mapsto> ?nd)"
    using no(4,5) by (rule inode_of_upd) (use s' no in \<open>auto simp: inodes.rd_wr_iff\<close>)
  then show ?thesis using s' by blast
qed

text \<open>C29: A write to a deleted file destroys another file.  Deleting a file leaves its in-core inode usable through an open
  file, and frees its number but not its block.  If the number is the lowest, the next object created gets it with a
  block of its own; a write through the old file then succeeds and stores the old inode under that number, so that the new
  name leads to the deleted file's block and the new block is lost, in memory and on the device.\<close>

theorem write_after_unlink_replaces_inode:
  assumes "calm e" "idle_inv s" and cu: "can_unlink s p dir pnd dc d de v nd"
    and lowest: "\<forall>m. m \<noteq> 0 \<and> m < inode_no nd \<longrightarrow> inode_of s m \<noteq> None"
    and d2: "dcache s d2 = Some de2" "d_parent de2 = p" "d2 \<noteq> p" "d2 \<noteq> d" "name_ok (d_name de2)"
    and fresh: "dir_lookup (dc, cache s (data_block_number pnd)) (d_name de2) = None"
    and blk: "\<exists>k. 3 \<le> k \<and> k < 32 \<and> block_free (free_blocks (sb_mem s)) k"
    and heap: "\<forall>w \<ge> next_inode s. icache s w = None" and m: "S_ISDIR m \<or> S_ISREG m" and len: "length buf \<le> BLOCK_SIZE"
  shows "\<exists>s1 s2 s3 nd2. simplefs_unlink e dir d s = Done (0, s1) \<and> simplefs_create_fs_object e dir d2 m s1 = Done (0, s2) \<and>
    inode_of s2 (inode_no nd) = Some nd2 \<and> data_block_number nd2 \<noteq> data_block_number nd \<and>
    simplefs_write e d buf 0 s2 = Done ((int (length buf), of_nat (length buf)), s3) \<and>
    inode_of s3 = (inode_of s2)(inode_no nd \<mapsto> nd\<lparr>isize := of_nat (length buf)\<rparr>) \<and> disk s3 1 = cache s3 1"
proof -
  let ?p1 = "pnd\<lparr>isize := isize pnd - 1\<rparr>"
  have fs: "fs_inv s" using assms(2) by (simp add: idle_inv_def)
  have look: "inode_of s (inode_no nd) = Some nd" and pnd: "inode_of s (inode_no pnd) = Some pnd" and dp: "d \<noteq> p"
    and de: "d_inode de = Some v" and ne: "inode_no nd \<noteq> inode_no pnd" and vd: "v \<noteq> dir"
    using cu in_sync_distinct [of s v nd dir pnd] by (auto simp: can_unlink_def open_dir_def in_sync_def)
  obtain vi where vi: "icache s v = Some vi" "i_private vi = Some nd" using cu by (auto simp: can_unlink_def in_sync_def)
  obtain dc1 s1 where u: "simplefs_unlink e dir d s = Done (0, s1)" "idle_inv s1" "unlinked nd pnd p dir d s s1"
      "dcache s1 d = Some (de\<lparr>d_count := d_count de - 1\<rparr>)" "open_dir s1 p dir ?p1 dc1" "length (free dc1) = Suc (length (free dc))"
    and l1: "dir_lookup (dc1, cache s1 (data_block_number pnd)) (d_name de2) = None"
    using unlink_effect [OF assms(1-3)] fresh d2(5) by auto
  have cc: "can_create s1 p dir ?p1 dc1 d2 de2"
    by (rule unlinked_can_create [OF cu u(3,5,6) l1 d2 blk heap])
  obtain no j nd2 s2 where c: "simplefs_create_fs_object e dir d2 m s1 = Done (0, s2)" "idle_inv s2" "inode_of s1 no = None"
      "\<forall>m. m \<noteq> 0 \<and> m < no \<longrightarrow> inode_of s1 m \<noteq> None" "lowest_free (free_blocks (sb_mem s1)) j"
      "nd2 = \<lparr>mode = ucast m, inode_no = no, data_block_number = of_nat j, isize = 0\<rparr>"
      "created nd2 ?p1 p dir d2 s1 s2" "in_sync s2 (next_inode s1) nd2"
    using create_effect [OF assms(1) u(2) cc m] by blast
  have "inode_of s1 (inode_no nd) = None" using u(3) by (simp add: unlinked_def)
  moreover have "inode_of s1 m \<noteq> None" if "m \<noteq> 0" "m < inode_no nd" for m
    using u(3) lowest that by (auto simp: unlinked_def)
  moreover have "no \<noteq> 0" using inode_of_Some(4) [of s2 no nd2] c(2,6,8) by (simp add: in_sync_def idle_inv_def)
  ultimately have no: "no = inode_no nd"
    using c(3,4) inode_of_Some(4) [OF fs look] by (metis linorder_neqE)
  have "inode_of s2 (inode_no nd) = Some nd2" using c(6,8) no by (simp add: in_sync_def)
  moreover have "data_block_number nd2 \<noteq> data_block_number nd"
    using stored_block_taken [OF fs look, of j] c(5,6) u(3) by (auto simp: unlinked_def)
  moreover have "icache s2 v = Some vi" "dcache s2 d = Some (de\<lparr>d_count := d_count de - 1\<rparr>)"
    using c(7) u(3,4) vd vi heap d2(4) dp by (auto simp: created_def unlinked_def)
  ultimately show ?thesis
    using write_stale [OF assms(1) c(2), of d "de\<lparr>d_count := d_count de - 1\<rparr>" v vi nd nd2 buf]
      u(1) c(1) de vi inode_of_block(4) [OF fs look] len by auto
qed

theorem write_after_unlink_replaces_inode_witness:
  "\<exists>s1 s2 s3 nd2. simplefs_unlink quiet_env 0 1 listed = Done (0, s1) \<and>
     simplefs_create_fs_object quiet_env 0 2 0x81A4 s1 = Done (0, s2) \<and> inode_of s2 2 = Some nd2 \<and> data_block_number nd2 \<noteq> 3 \<and>
     simplefs_write quiet_env 1 [104] 0 s2 = Done ((1, 1), s3) \<and> inode_of s3 2 = Some (sample_inode\<lparr>isize := 1\<rparr>)"
proof -
  have cc: "can_create listed 0 0 root_inode root_cache 2 dentry_b" by (rule listed_can_create)
  have nd: "inode_no sample_inode = 2" "data_block_number sample_inode = 3" by (simp_all add: sample_inode_def)
  have "m = 1" if "m \<noteq> 0" "m < (2 :: u64)" for m
  proof -
    have "unat m < 2" "0 < unat m" using that by (simp_all add: word_less_nat_alt unat_gt_0)
    then have "unat m = unat (1 :: u64)" by simp
    then show ?thesis by (simp add: word_unat_eq_iff)
  qed
  then have low: "\<forall>m. m \<noteq> 0 \<and> m < inode_no sample_inode \<longrightarrow> inode_of listed m \<noteq> None"
    using root_exists listed_inv nd by (auto simp: idle_inv_def)
  have "dcache listed 2 = Some dentry_b" "d_parent dentry_b = 0" "name_ok (d_name dentry_b)"
    "dir_lookup (root_cache, cache listed (data_block_number root_inode)) (d_name dentry_b) = None"
    "\<exists>k. 3 \<le> k \<and> k < 32 \<and> block_free (free_blocks (sb_mem listed)) k" "\<forall>w \<ge> next_inode listed. icache listed w = None"
    using cc by (simp_all add: can_create_def)
  from write_after_unlink_replaces_inode [OF calm_quiet_env(1) listed_inv listed_can_unlink low this(1,2) _ _ this(3-6), of "0x81A4" "[104]"]
  show ?thesis using S_ISREG_file nd by auto
qed

end
