(* ===== verification/Sfs_Mount.thy ===== *)
theory Sfs_Mount
  imports Sfs_Vfs
begin

text \<open>
  Mounting and unmounting, and the registration of the module, in \<open>simplefs/simple.c\<close> (lines 1067 to 1305):
  \<open>fill_imap\<close>, \<open>simplefs_fill_super\<close>, \<open>simplefs_mount\<close>, \<open>simplefs_kill_superblock\<close>, \<open>simplefs_init\<close> and \<open>simplefs_exit\<close>.
  The kernel's \<open>mount_bdev\<close> and \<open>kill_block_super\<close> are parameters.  The state adds the fields of
  \<open>struct super_block\<close> that the code sets, and the number of \<open>simplefs_sb_info\<close> objects allocated and not yet freed.
\<close>

section \<open>State\<close>

record mntstate = fsstate +
  s_magic :: u64
  s_maxbytes :: nat
  s_fs_info :: bool
  s_root :: "nat option"
  sb_infos :: nat

section \<open>Operations\<close>

text \<open>
  The second loop of \<open>fill_imap\<close>: \<open>i\<close> runs from \<open>SIMPLEFS_START_INO\<close> to the number of slots, while the
  pointer, here the index \<open>p\<close>, starts at the first slot.
\<close>

function fill_imap_loop :: "blk \<Rightarrow> nat \<Rightarrow> nat \<Rightarrow> u64 \<Rightarrow> u64 outcome" where
  "fill_imap_loop b p i m =
     (if i < INODES_PER_BLOCK
      then if inode_no (rd_inode p b) \<noteq> 0
           then bnd (set_bit_ul (inode_no (rd_inode p b)) m) (\<lambda>m. fill_imap_loop b (Suc p) (Suc i) m)
           else fill_imap_loop b (Suc p) (Suc i) m
      else Done m)"
  by pat_completeness auto
termination
  by (relation "measure (\<lambda>(b, p, i, m). INODES_PER_BLOCK - i)") auto

declare fill_imap_loop.simps [simp del]

definition fill_imap :: "kenv \<Rightarrow> 'a sbstate_scheme \<Rightarrow> 'a sbstate_scheme outcome" where
  "fill_imap e s =
     (let (ok, s) = sb_bread e SIMPLEFS_INODESTORE_BLOCK_NUMBER s in
      bnd (guard ok Null_deref) (\<lambda>_.
      bnd (set_bit_ul 0 (imap s)) (\<lambda>m.
      bnd (fill_imap_loop (cache s SIMPLEFS_INODESTORE_BLOCK_NUMBER) 0 SIMPLEFS_START_INO m) (\<lambda>m.
      Done (brelse SIMPLEFS_INODESTORE_BLOCK_NUMBER (s\<lparr>imap := m\<rparr>))))))"

text \<open>
  \<open>d_make_root\<close>: a directory entry for the root inode, at the address \<open>r\<close> the kernel chooses, or NULL.
\<close>

definition d_make_root :: "kenv \<Rightarrow> nat \<Rightarrow> nat \<Rightarrow> 'a fsstate_scheme \<Rightarrow> nat option \<times> 'a fsstate_scheme" where
  "d_make_root e r v s =
     (let (ok, s) = alloc e s in
      if ok then (Some r, s\<lparr>dcache := (dcache s)(r \<mapsto>
        \<lparr>d_inode = Some v, d_parent = r, d_name = [47], d_fsdata = None, d_count = 1\<rparr>)\<rparr>)
      else (None, s))"

definition simplefs_fill_super :: "kenv \<Rightarrow> nat \<Rightarrow> 'a mntstate_scheme \<Rightarrow> (int \<times> 'a mntstate_scheme) outcome" where
  "simplefs_fill_super e r s =
     (let (ok_info, s) = alloc e s;
          (ok, s) = sb_bread e SIMPLEFS_SUPERBLOCK_BLOCK_NUMBER s in
      bnd (guard ok Bug_on) (\<lambda>_.
      bnd (guard ok_info Null_deref) (\<lambda>_.
      let s = s\<lparr>sb_infos := Suc (sb_infos s)\<rparr>;
          sb_disk = rd_super (cache s SIMPLEFS_SUPERBLOCK_BLOCK_NUMBER) in
      if magic sb_disk \<noteq> SIMPLEFS_MAGIC
      then Done (- EPERM, brelse SIMPLEFS_SUPERBLOCK_BLOCK_NUMBER s)
      else if block_size sb_disk \<noteq> of_nat SIMPLEFS_DEFAULT_BLOCK_SIZE
      then Done (- EPERM, brelse SIMPLEFS_SUPERBLOCK_BLOCK_NUMBER s)
      else
      let s = s\<lparr>s_magic := SIMPLEFS_MAGIC, s_fs_info := True, sb_mem := sb_disk, imap := 0,
                s_maxbytes := SIMPLEFS_DEFAULT_BLOCK_SIZE\<rparr> in
      bnd (fill_imap e s) (\<lambda>s.
      let (p, s) = new_inode e s in
      case p of
        None \<Rightarrow> Fault Null_deref
      | Some v \<Rightarrow>
          let s = inode_init_owner e v None S_IFDIR s;
              (now, s) = current_time e s;
              s = upd_vinode v (\<lambda>vi. vi\<lparr>i_ino := SIMPLEFS_ROOTDIR_INODE_NUMBER,
                    i_fop := Some simplefs_dir_operations, i_time := now\<rparr>) s in
          bnd (simplefs_get_inode e SIMPLEFS_ROOTDIR_INODE_NUMBER s) (\<lambda>(q, s).
          let s = upd_vinode v (\<lambda>vi. vi\<lparr>i_private := q\<rparr>) s;
              (root, s) = d_make_root e r v s;
              s = s\<lparr>s_root := root\<rparr> in
          if root = None then Done (- ENOMEM, brelse SIMPLEFS_SUPERBLOCK_BLOCK_NUMBER s)
          else Done (0, brelse SIMPLEFS_SUPERBLOCK_BLOCK_NUMBER s))))))"

text \<open>
  \<open>simplefs_mount\<close> returns what \<open>mount_bdev\<close> returns: an error, or the root of the mounted file system.
\<close>

definition simplefs_mount ::
    "(('a mntstate_scheme \<Rightarrow> (int \<times> 'a mntstate_scheme) outcome) \<Rightarrow> 'a mntstate_scheme \<Rightarrow> ((int + nat) \<times> 'a mntstate_scheme) outcome) \<Rightarrow>
     kenv \<Rightarrow> nat \<Rightarrow> 'a mntstate_scheme \<Rightarrow> ((int + nat) \<times> 'a mntstate_scheme) outcome" where
  "simplefs_mount mount_bdev e r s = mount_bdev (simplefs_fill_super e r) s"

definition simplefs_kill_superblock ::
    "('a mntstate_scheme \<Rightarrow> 'a mntstate_scheme) \<Rightarrow> 'a mntstate_scheme \<Rightarrow> 'a mntstate_scheme" where
  "simplefs_kill_superblock kill_block_super s =
     (let live = s_fs_info s; s = kill_block_super s in
      if live then s\<lparr>sb_infos := sb_infos s - 1\<rparr> else s)"

text \<open>What is relied on of \<open>kill_block_super\<close>: it writes every dirty buffer to the device.\<close>

definition flushes :: "('a mntstate_scheme \<Rightarrow> 'a mntstate_scheme) \<Rightarrow> bool" where
  "flushes kill_block_super \<longleftrightarrow>
     (\<forall>s. disk (kill_block_super s) = (\<lambda>n. if dirty s n then cache s n else disk s n))"

section \<open>The module\<close>

record module_state =
  sfs_inode_cachep :: bool
  sfs_entry_cachep :: bool
  registered :: bool

text \<open>The results of the two \<open>kmem_cache_create\<close> calls and of \<open>register_filesystem\<close> are arguments.\<close>

definition simplefs_init :: "bool \<Rightarrow> bool \<Rightarrow> int \<Rightarrow> module_state \<Rightarrow> int \<times> module_state" where
  "simplefs_init inode_ok entry_ok reg ms =
     (let ms = ms\<lparr>sfs_inode_cachep := inode_ok\<rparr>;
          ms = ms\<lparr>sfs_entry_cachep := entry_ok\<rparr> in
      if \<not> sfs_inode_cachep ms then (- ENOMEM, ms)
      else if \<not> sfs_entry_cachep ms then (- ENOMEM, ms)
      else (reg, ms\<lparr>registered := (reg = 0)\<rparr>))"

definition simplefs_exit :: "int \<Rightarrow> module_state \<Rightarrow> module_state" where
  "simplefs_exit unreg ms =
     (let ms = (if unreg = 0 then ms\<lparr>registered := False\<rparr> else ms) in
      ms\<lparr>sfs_inode_cachep := False\<rparr>)"

section \<open>The inode bitmap\<close>

lemma fill_imap_loop_step:
  "p < 127 \<Longrightarrow> fill_imap_loop b p (Suc p) m =
     (if inode_no (rd_inode p b) \<noteq> 0
      then bnd (set_bit_ul (inode_no (rd_inode p b)) m) (fill_imap_loop b (Suc p) (Suc (Suc p)))
      else fill_imap_loop b (Suc p) (Suc (Suc p)) m)"
  by (subst fill_imap_loop.simps) simp

lemma fill_imap_loop_done: "fill_imap_loop b 127 128 m = Done m"
  by (subst fill_imap_loop.simps) simp

lemma fill_imap_loop_bits:
  assumes "p \<le> 127" "numbered b"
  shows "\<exists>m'. fill_imap_loop b p (Suc p) m = Done m' \<and>
    (\<forall>n. bit m' n \<longleftrightarrow> bit m n \<or> (\<exists>i. p \<le> i \<and> i < 63 \<and> slot_used b i \<and> n = Suc i))"
  using assms(1)
proof (induction "127 - p" arbitrary: p m)
  case 0
  then show ?case by (simp add: fill_imap_loop_done) auto
next
  case (Suc d)
  then have p: "p < 127" "d = 127 - Suc p" "Suc p \<le> 127" by simp_all
  note IH = Suc.hyps(1) [OF p(2,3)]
  show ?case
  proof (cases "slot_used b p")
    case False
    then have "fill_imap_loop b p (Suc p) m = fill_imap_loop b (Suc p) (Suc (Suc p)) m"
      using p by (simp add: fill_imap_loop_step slot_used_def)
    then obtain m' where "fill_imap_loop b p (Suc p) m = Done m'"
      "\<forall>n. bit m' n \<longleftrightarrow> bit m n \<or> (\<exists>i. Suc p \<le> i \<and> i < 63 \<and> slot_used b i \<and> n = Suc i)"
      using IH [of m] by auto
    then show ?thesis using False by (metis Suc_leD le_antisym not_less_eq_eq)
  next
    case True
    then have no: "p < 63" "unat (inode_no (rd_inode p b)) = Suc p"
      using assms(2) p by (auto simp: numbered_def used_slots_def)
    let ?m = "m OR push_bit (Suc p) 1"
    have "fill_imap_loop b p (Suc p) m = fill_imap_loop b (Suc p) (Suc (Suc p)) ?m"
      using p True no by (simp add: fill_imap_loop_step slot_used_def set_bit_ul_def)
    then obtain m' where m': "fill_imap_loop b p (Suc p) m = Done m'"
      "\<forall>n. bit m' n \<longleftrightarrow> bit ?m n \<or> (\<exists>i. Suc p \<le> i \<and> i < 63 \<and> slot_used b i \<and> n = Suc i)"
      using IH [of ?m] by auto
    have "bit ?m n \<longleftrightarrow> bit m n \<or> n = Suc p" for n using no(1) by simp
    then show ?thesis using m' True no(1) by (intro exI [of _ m']) (auto simp: Suc_le_eq order_le_less)
  qed
qed

lemma fill_imap_calm:
  assumes "calm e" "numbered (cache s 1)" "imap s = 0"
  shows "\<exists>m. fill_imap e s = Done (s\<lparr>tick := Suc (tick s), imap := m\<rparr>) \<and> imap_inv (cache s 1) m"
proof -
  let ?m = "0 OR push_bit 0 1 :: u64"
  obtain m where m: "fill_imap_loop (cache s 1) 0 1 ?m = Done m"
    "\<forall>n. bit m n \<longleftrightarrow> bit ?m n \<or> (\<exists>i. 0 \<le> i \<and> i < 63 \<and> slot_used (cache s 1) i \<and> n = Suc i)"
    using fill_imap_loop_bits [OF _ assms(2), of 0 ?m] by auto
  have "bit ?m n \<longleftrightarrow> n = 0" for n by (simp add: bit_simps)
  then have "imap_inv (cache s 1) m" using m(2) by (auto simp: imap_inv_def)
  moreover have "fill_imap e s = Done (s\<lparr>tick := Suc (tick s), imap := m\<rparr>)"
    using assms(1,3) m(1) by (simp add: fill_imap_def calm_simps set_bit_ul_def buffer_defs Let_def)
  ultimately show ?thesis by blast
qed

lemma imap_inv_unique:
  assumes "imap_inv b m" "imap_inv b m'"
  shows "m = m'"
proof (rule bit_eqI)
  fix n assume "possible_bit TYPE(u64) n"
  then have "n = 0 \<or> (\<exists>i<63. n = Suc i)" by (cases n) (auto simp: possible_bit_def)
  then show "bit m n \<longleftrightarrow> bit m' n" using assms by (auto simp: imap_inv_def)
qed

section \<open>Mounting\<close>

text \<open>What the device has to satisfy: the part of the invariant that does not concern the in-core bitmap.\<close>

definition device_ok :: "simplefs_super_block \<Rightarrow> blk \<Rightarrow> bool" where
  "device_ok sb b \<longleftrightarrow>
     magic sb = SIMPLEFS_MAGIC \<and> block_size sb = of_nat SIMPLEFS_DEFAULT_BLOCK_SIZE \<and>
     numbered b \<and> inodes_count sb = of_nat (card (used_slots b)) \<and> blocks_inv b (free_blocks sb) \<and> root_inv b"

lemma device_ok_store_inv:
  "device_ok sb b \<Longrightarrow> imap_inv b m \<Longrightarrow> store_inv b m (inodes_count sb) (free_blocks sb)"
  by (simp add: device_ok_def store_inv_def)

lemma fill_super_calm:
  assumes "calm e" "unlocked s" and sb: "rd_super (cache s 0) = sb" and ok: "device_ok sb (cache s 1)"
  shows "\<exists>m s'. simplefs_fill_super e r s = Done (0, s') \<and> imap_inv (cache s 1) m \<and> imap s' = m \<and>
    sb_mem s' = sb \<and> cache s' = cache s \<and> disk s' = disk s \<and> held s' = held s \<and> refs s' = refs s \<and>
    s_fs_info s' \<and> s_root s' = Some r \<and> sb_infos s' = Suc (sb_infos s) \<and> next_inode s' = Suc (next_inode s) \<and>
    dcache s' = (dcache s)(r \<mapsto> \<lparr>d_inode = Some (next_inode s), d_parent = r, d_name = [47], d_fsdata = None, d_count = 1\<rparr>) \<and>
    (\<exists>vi. icache s' = (icache s)(next_inode s \<mapsto> vi) \<and> i_ino vi = 1 \<and> i_fop vi = Some simplefs_dir_operations \<and>
       i_private vi = Some (rd_inode 0 (cache s 1)))"
proof -
  have dev: "magic sb = SIMPLEFS_MAGIC" "block_size sb = 4096" "numbered (cache s 1)"
    using ok by (simp_all add: device_ok_def)
  let ?s = "s\<lparr>refs := (refs s)(0 := Suc (refs s 0)), tick := Suc (Suc (tick s)), sb_infos := Suc (sb_infos s),
     s_magic := SIMPLEFS_MAGIC, s_fs_info := True, sb_mem := sb, imap := 0, s_maxbytes := 4096\<rparr>"
  obtain m where m: "fill_imap e ?s = Done (?s\<lparr>tick := Suc (tick ?s), imap := m\<rparr>)" "imap_inv (cache s 1) m"
    using fill_imap_calm [OF assms(1), of ?s] dev(3) by auto
  show ?thesis
    using assms(1,2) sb dev m
    by (simp add: simplefs_fill_super_def calm_simps vfs_update current_time_def d_make_root_def blank_inode_def
        buffer_defs Let_def) (rule exI, rule conjI [OF refl], simp)
qed

section \<open>Properties\<close>

text \<open>C14: mounting establishes the invariant.  For a device with the right magic number and block size whose super
  block and inode store are consistent, \<open>simplefs_fill_super\<close> returns 0; the in-core super block is the one on
  the device, the inode bitmap agrees with the inode store, the root directory entry is bound to an
  in-core inode that agrees with inode 1, the invariant holds and no lock is held.  No reference is kept on the
  buffer of the super block, although \<open>sb_info->sb\<close> points into it.\<close>

theorem fill_super_establishes_invariant:
  assumes "calm e" "unlocked s" "device_ok (rd_super (cache s 0)) (cache s 1)"
  shows "\<exists>v s'. simplefs_fill_super e r s = Done (0, s') \<and> idle_inv s' \<and> sb_mem s' = rd_super (cache s 0) \<and>
    s_root s' = Some r \<and> dcache s' r = Some \<lparr>d_inode = Some v, d_parent = r, d_name = [47], d_fsdata = None, d_count = 1\<rparr> \<and>
    in_sync s' v (rd_inode 0 (cache s 1)) \<and> cache s' = cache s \<and> refs s' = refs s"
proof -
  let ?root = "rd_inode 0 (cache s 1)"
  obtain m s' vi where s': "simplefs_fill_super e r s = Done (0, s')" "imap_inv (cache s 1) m" "imap s' = m"
    "sb_mem s' = rd_super (cache s 0)" "cache s' = cache s" "held s' = held s" "refs s' = refs s" "s_root s' = Some r"
    "dcache s' = (dcache s)(r \<mapsto> \<lparr>d_inode = Some (next_inode s), d_parent = r, d_name = [47], d_fsdata = None, d_count = 1\<rparr>)"
    "icache s' = (icache s)(next_inode s \<mapsto> vi)" "i_ino vi = 1" "i_private vi = Some ?root"
    using fill_super_calm [OF assms(1,2) refl assms(3), of r] by blast
  have inv: "idle_inv s'"
    using device_ok_store_inv [OF assms(3) s'(2)] assms(2) s' by (simp add: idle_inv_def fs_inv_def unlocked_def)
  have "slot_used (cache s 1) 0" "numbered (cache s 1)" using assms(3) by (simp_all add: device_ok_def root_inv_def)
  then have "unat (inode_no ?root) = 1" by (auto simp: numbered_def used_slots_def)
  then have no: "inode_no ?root = 1" by (metis unat_1 word_unat_eq_iff)
  have "inode_of s' 1 = Some ?root" using \<open>slot_used (cache s 1) 0\<close> s'(5) by (simp add: inode_of_def)
  then have "in_sync s' (next_inode s) ?root" using s'(10-12) no by (simp add: in_sync_def)
  then show ?thesis using s' inv by auto
qed

definition unmounted_one_file :: mntstate where
  "unmounted_one_file =
     \<lparr>cache = (cache one_file)(0 := wr_super (sb_mem one_file) (\<lambda>_. 0)), disk = (\<lambda>_ _. 0), dirty = (\<lambda>_. False),
      refs = (\<lambda>_. 0), held = (\<lambda>_. False), tick = 0,
      sb_mem = \<lparr>version = 0, magic = 0, block_size = 0, inodes_count = 0, free_blocks = 0\<rparr>, imap = 0,
      icache = (\<lambda>_. None), next_inode = 0, dcache = (\<lambda>_. None),
      s_magic = 0, s_maxbytes = 0, s_fs_info = False, s_root = None, sb_infos = 0\<rparr>"

lemma unmounted_one_file_ok:
  "rd_super (cache unmounted_one_file 0) = sb_mem one_file" "cache unmounted_one_file 1 = cache one_file 1"
  "device_ok (sb_mem one_file) (cache one_file 1)" "unlocked unmounted_one_file"
proof -
  show "rd_super (cache unmounted_one_file 0) = sb_mem one_file" "cache unmounted_one_file 1 = cache one_file 1"
    "unlocked unmounted_one_file"
    by (simp_all add: unmounted_one_file_def blk_simps unlocked_def)
  have "magic (sb_mem one_file) = SIMPLEFS_MAGIC" "block_size (sb_mem one_file) = 4096" by (simp_all add: one_file_def)
  then show "device_ok (sb_mem one_file) (cache one_file 1)"
    using one_file_inv by (simp add: device_ok_def idle_inv_def fs_inv_def store_inv_def)
qed

theorem fill_super_establishes_invariant_witness:
  "\<exists>s'. simplefs_fill_super quiet_env 7 unmounted_one_file = Done (0, s') \<and> idle_inv s' \<and> s_root s' = Some 7"
  using fill_super_establishes_invariant [OF calm_quiet_env(1), of unmounted_one_file 7] unmounted_one_file_ok by auto

text \<open>C15: unmounting and mounting again recovers the file system.  If every block whose buffer is not dirty is
  on the device and \<open>kill_block_super\<close> writes the dirty ones, then mounting a machine whose buffer cache is read from
  that device gives back the same inodes under the same numbers, the same super block and the same inode bitmap.\<close>

theorem unmount_mount_recovers:
  fixes s t :: mntstate
  assumes "calm e" "idle_inv s" "flushes kill_block_super" "\<And>n. dirty s n \<or> disk s n = cache s n"
    and "rd_super (cache s 0) = sb_mem s" "magic (sb_mem s) = SIMPLEFS_MAGIC" "block_size (sb_mem s) = 4096"
    and "cache t = disk (simplefs_kill_superblock kill_block_super s)" "unlocked t"
  shows "\<exists>t'. simplefs_fill_super e r t = Done (0, t') \<and> idle_inv t' \<and> inode_of t' = inode_of s \<and>
    sb_mem t' = sb_mem s \<and> imap t' = imap s"
proof -
  have "disk (simplefs_kill_superblock kill_block_super s) = disk (kill_block_super s)"
    by (simp add: simplefs_kill_superblock_def Let_def)
  then have c: "cache t = cache s" using assms(3,4,8) by (auto simp: flushes_def fun_eq_iff) (metis+)
  have st: "store_inv (cache s 1) (imap s) (inodes_count (sb_mem s)) (free_blocks (sb_mem s))"
    using assms(2) by (simp add: idle_inv_def fs_inv_def)
  then have "device_ok (sb_mem s) (cache t 1)" using assms(6,7) c by (simp add: device_ok_def store_inv_def)
  then obtain m t' where t': "simplefs_fill_super e r t = Done (0, t')" "imap_inv (cache t 1) m" "imap t' = m"
    "sb_mem t' = sb_mem s" "cache t' = cache t" "held t' = held t"
    using fill_super_calm [OF assms(1,9), of "sb_mem s" r] assms(5) c by auto
  have "imap t' = imap s" using t'(2,3) st c by (auto simp: store_inv_def intro: imap_inv_unique)
  moreover have "inode_of t' = inode_of s" by (rule ext) (simp add: inode_of_def t'(5) c)
  moreover have "idle_inv t'"
    using st assms(9) t'(4-6) c \<open>imap t' = imap s\<close> by (simp add: idle_inv_def fs_inv_def unlocked_def)
  ultimately show ?thesis using t'(1,4) by blast
qed

definition flush_all :: "mntstate \<Rightarrow> mntstate" where
  "flush_all s = s\<lparr>disk := (\<lambda>n. if dirty s n then cache s n else disk s n), dirty := (\<lambda>_. False)\<rparr>"

theorem unmount_mount_recovers_witness:
  "\<exists>s t' (t :: mntstate). idle_inv s \<and> simplefs_fill_super quiet_env 0 t = Done (0, t') \<and>
     cache t = disk (simplefs_kill_superblock flush_all s) \<and> inode_of t' = inode_of s \<and> imap t' = imap s"
proof -
  let ?s = "unmounted_one_file\<lparr>dirty := (\<lambda>_. True), sb_mem := sb_mem one_file, imap := imap one_file\<rparr>"
  let ?t = "unmounted_one_file\<lparr>cache := disk (simplefs_kill_superblock flush_all ?s)\<rparr>"
  have inv: "idle_inv ?s"
    using one_file_inv unmounted_one_file_ok by (simp add: idle_inv_def fs_inv_def unlocked_def)
  have "magic (sb_mem one_file) = SIMPLEFS_MAGIC" "block_size (sb_mem one_file) = 4096" by (simp_all add: one_file_def)
  then have "\<exists>t'. simplefs_fill_super quiet_env 0 ?t = Done (0, t') \<and> idle_inv t' \<and> inode_of t' = inode_of ?s \<and>
    sb_mem t' = sb_mem ?s \<and> imap t' = imap ?s"
    using unmounted_one_file_ok
    by (intro unmount_mount_recovers [OF calm_quiet_env(1) inv, where kill_block_super = flush_all])
      (simp_all add: flushes_def flush_all_def unlocked_def)
  then obtain t' where "simplefs_fill_super quiet_env 0 ?t = Done (0, t')" "inode_of t' = inode_of ?s" "imap t' = imap ?s"
    by blast
  then show ?thesis using inv by (intro exI [of _ ?s] exI [of _ t'] exI [of _ ?t]) simp
qed

text \<open>C32: a foreign device is refused, at the price of a leak.  When the magic number or the block size does not
  match, \<open>simplefs_fill_super\<close> returns \<open>-EPERM\<close> and changes neither the file system state nor the buffers; but
  the \<open>simplefs_sb_info\<close> it allocated is bound nowhere, so that \<open>simplefs_kill_superblock\<close> does not free it.\<close>

theorem fill_super_refuses_foreign:
  assumes "calm e" "\<not> s_fs_info s"
    and "magic (rd_super (cache s 0)) \<noteq> SIMPLEFS_MAGIC \<or> block_size (rd_super (cache s 0)) \<noteq> 4096"
    and "\<And>x. sb_infos (kill_block_super x) = sb_infos x"
  shows "simplefs_fill_super e r s = Done (- EPERM, s\<lparr>tick := tick s + 2, sb_infos := Suc (sb_infos s)\<rparr>) \<and>
    sb_infos (simplefs_kill_superblock kill_block_super (s\<lparr>tick := tick s + 2, sb_infos := Suc (sb_infos s)\<rparr>))
      = Suc (sb_infos s)"
  using assms
  by (auto simp: simplefs_fill_super_def simplefs_kill_superblock_def calm_simps buffer_defs Let_def)

theorem fill_super_refuses_foreign_witness:
  "simplefs_fill_super quiet_env 0 (unmounted_one_file\<lparr>cache := (\<lambda>_ _. 0)\<rparr>) =
     Done (- EPERM, unmounted_one_file\<lparr>cache := (\<lambda>_ _. 0), tick := 2, sb_infos := 1\<rparr>)"
proof -
  have z: "get_u64 off (\<lambda>_. 0) = 0" for off
  proof -
    have "blk_read off 8 (\<lambda>_. 0) = replicate 8 0" by (simp add: list_eq_iff_nth_eq)
    then show ?thesis by (simp add: get_u64_def)
  qed
  show ?thesis
    using fill_super_refuses_foreign [OF calm_quiet_env(1), of "unmounted_one_file\<lparr>cache := (\<lambda>_ _. 0)\<rparr>" "\<lambda>s. s" 0]
    by (simp add: rd_super_def z) (simp add: unmounted_one_file_def)
qed

text \<open>Loading and unloading the module leaves the slab cache of directory cache entries behind: \<open>simplefs_exit\<close>
  destroys only the inode cache, and a failed \<open>simplefs_init\<close> destroys neither.\<close>

theorem module_leaks_entry_cache:
  "snd (simplefs_init True True 0 ms) = \<lparr>sfs_inode_cachep = True, sfs_entry_cachep = True, registered = True\<rparr> \<and>
   sfs_entry_cachep (simplefs_exit 0 (snd (simplefs_init True True 0 ms))) \<and>
   \<not> sfs_inode_cachep (simplefs_exit 0 (snd (simplefs_init True True 0 ms))) \<and>
   fst (simplefs_init True False reg ms) = - ENOMEM \<and> sfs_inode_cachep (snd (simplefs_init True False reg ms))"
  by (simp add: simplefs_init_def simplefs_exit_def Let_def)

end
