(* ===== verification/Mkfs.thy ===== *)
theory Mkfs
  imports Sfs_Mount
begin

text \<open>
  The program \<open>simplefs/mkfs-simplefs.c\<close>, which formats a device: it writes the super block, two inodes, the
  root directory's record and the contents of the welcome file.  The device is a function from
  byte offsets to bytes, written at the position of the file descriptor.  What the program cannot decide
  is the environment: the results of its \<open>write\<close> and \<open>lseek\<close> calls, in the order of the calls, whether
  \<open>open\<close> succeeds, and the values of the padding bytes inside the structures it writes.
\<close>

section \<open>Environment and state\<close>

record mkenv =
  write_result :: "nat \<Rightarrow> nat \<Rightarrow> int"
  lseek_fails :: "nat \<Rightarrow> bool"
  open_fails :: bool
  padding :: "nat \<Rightarrow> u8"

record fdstate =
  dev :: "nat \<Rightarrow> u8"
  pos :: nat
  calls :: nat

text \<open>
  \<open>write(fd, buf, len)\<close>: a number of bytes up to the length, or \<open>-1\<close>; \<open>lseek(fd, n, SEEK_CUR)\<close>: whether it succeeds.
\<close>

definition sys_write :: "mkenv \<Rightarrow> bytes \<Rightarrow> fdstate \<Rightarrow> int \<times> fdstate" where
  "sys_write e bs s =
     (let r = write_result e (calls s) (length bs); n = min (length bs) (nat r) in
      (if r < 0 then - 1 else int n,
       s\<lparr>dev := blk_write (pos s) (take n bs) (dev s), pos := pos s + n, calls := Suc (calls s)\<rparr>))"

definition sys_lseek :: "mkenv \<Rightarrow> nat \<Rightarrow> fdstate \<Rightarrow> bool \<times> fdstate" where
  "sys_lseek e n s =
     (if lseek_fails e (calls s) then (False, s\<lparr>calls := Suc (calls s)\<rparr>)
      else (True, s\<lparr>pos := pos s + n, calls := Suc (calls s)\<rparr>))"

section \<open>The structures as bytes\<close>

definition super_bytes :: "simplefs_super_block \<Rightarrow> bytes" where
  "super_bytes sb =
     le_bytes 8 (version sb) @ le_bytes 8 (magic sb) @ le_bytes 8 (block_size sb) @
     le_bytes 8 (inodes_count sb) @ le_bytes 8 (free_blocks sb) @ replicate (SIMPLEFS_DEFAULT_BLOCK_SIZE - 40) 0"

definition inode_bytes :: "mkenv \<Rightarrow> simplefs_inode \<Rightarrow> bytes" where
  "inode_bytes e nd =
     le_bytes 4 (ucast (mode nd)) @ map (padding e) [0..<4] @
     le_bytes 8 (inode_no nd) @ le_bytes 8 (data_block_number nd) @ le_bytes 8 (isize nd)"

definition record_bytes :: "mkenv \<Rightarrow> bytes \<Rightarrow> u64 \<Rightarrow> bytes" where
  "record_bytes e name no =
     name @ replicate (SIMPLEFS_FILENAME_MAXLEN - length name) 0 @ [padding e 0] @ le_bytes 8 no"

section \<open>The program\<close>

abbreviation (input) WELCOMEFILE_DATABLOCK_NUMBER :: nat where "WELCOMEFILE_DATABLOCK_NUMBER \<equiv> 3"
abbreviation (input) WELCOMEFILE_INODE_NUMBER :: u64 where "WELCOMEFILE_INODE_NUMBER \<equiv> 2"

text \<open>\<open>(~0) & ~(1 << WELCOMEFILE_DATABLOCK_NUMBER)\<close> is computed as an \<open>int\<close>.\<close>

definition mkfs_super :: simplefs_super_block where
  "mkfs_super =
     \<lparr>version = 1, magic = SIMPLEFS_MAGIC, block_size = of_nat SIMPLEFS_DEFAULT_BLOCK_SIZE, inodes_count = 2,
      free_blocks = int_to_u64 (NOT 0 AND NOT (push_bit WELCOMEFILE_DATABLOCK_NUMBER 1))\<rparr>"

definition write_superblock :: "mkenv \<Rightarrow> fdstate \<Rightarrow> int \<times> fdstate" where
  "write_superblock e s =
     (let (ret, s) = sys_write e (super_bytes mkfs_super) s in
      if ret \<noteq> int SIMPLEFS_DEFAULT_BLOCK_SIZE then (- 1, s) else (0, s))"

definition mkfs_root :: simplefs_inode where
  "mkfs_root = \<lparr>mode = ucast S_IFDIR, inode_no = SIMPLEFS_ROOTDIR_INODE_NUMBER,
     data_block_number = SIMPLEFS_ROOTDIR_DATABLOCK_NUMBER, isize = 1\<rparr>"

definition write_inode_store :: "mkenv \<Rightarrow> fdstate \<Rightarrow> int \<times> fdstate" where
  "write_inode_store e s =
     (let (ret, s) = sys_write e (inode_bytes e mkfs_root) s in
      if ret \<noteq> int SIZEOF_INODE then (- 1, s) else (0, s))"

definition write_inode :: "mkenv \<Rightarrow> simplefs_inode \<Rightarrow> fdstate \<Rightarrow> int \<times> fdstate" where
  "write_inode e nd s =
     (let (ret, s) = sys_write e (inode_bytes e nd) s in
      if ret \<noteq> int SIZEOF_INODE then (- 1, s)
      else let nbytes = SIMPLEFS_DEFAULT_BLOCK_SIZE - SIZEOF_INODE - SIZEOF_INODE;
               (ok, s) = sys_lseek e nbytes s
           in if \<not> ok then (- 1, s) else (0, s))"

definition write_dirent :: "mkenv \<Rightarrow> bytes \<Rightarrow> u64 \<Rightarrow> fdstate \<Rightarrow> int \<times> fdstate" where
  "write_dirent e name no s =
     (let (ret, s) = sys_write e (record_bytes e name no) s in
      if ret \<noteq> int SIZEOF_DIR_RECORD then (- 1, s)
      else let nbytes = SIMPLEFS_DEFAULT_BLOCK_SIZE - SIZEOF_DIR_RECORD;
               (ok, s) = sys_lseek e nbytes s
           in if \<not> ok then (- 1, s) else (0, s))"

definition write_block :: "mkenv \<Rightarrow> bytes \<Rightarrow> fdstate \<Rightarrow> int \<times> fdstate" where
  "write_block e bs s =
     (let (ret, s) = sys_write e bs s in if ret \<noteq> int (length bs) then (- 1, s) else (0, s))"

text \<open>The array \<open>welcomefile_body\<close> with its terminating NUL, which its \<open>sizeof\<close> counts.\<close>

definition welcomefile_body :: bytes where
  "welcomefile_body = cstr (bytes_of ''Love is God. God is Love. Anbe Murugan.'' @ [10])"

definition welcome_inode :: simplefs_inode where
  "welcome_inode = \<lparr>mode = ucast S_IFREG, inode_no = WELCOMEFILE_INODE_NUMBER,
     data_block_number = of_nat WELCOMEFILE_DATABLOCK_NUMBER, isize = of_nat (length welcomefile_body)\<rparr>"

definition welcome_name :: bytes where
  "welcome_name = bytes_of ''vanakkam''"

definition mkfs_main :: "mkenv \<Rightarrow> int \<Rightarrow> fdstate \<Rightarrow> int \<times> fdstate" where
  "mkfs_main e argc s =
     (if argc \<noteq> 2 then (- 1, s)
      else if open_fails e then (- 1, s)
      else let (r, s) = write_superblock e s in if r \<noteq> 0 then (1, s)
      else let (r, s) = write_inode_store e s in if r \<noteq> 0 then (1, s)
      else let (r, s) = write_inode e welcome_inode s in if r \<noteq> 0 then (1, s)
      else let (r, s) = write_dirent e welcome_name WELCOMEFILE_INODE_NUMBER s in if r \<noteq> 0 then (1, s)
      else let (r, s) = write_block e welcomefile_body s in if r \<noteq> 0 then (1, s)
      else (0, s))"

section \<open>The image\<close>

definition dev_block :: "(nat \<Rightarrow> u8) \<Rightarrow> nat \<Rightarrow> blk" where
  "dev_block d n = (\<lambda>i. d (4096 * n + i))"

lemma dev_block_read: "blk_read off k (dev_block d n) = blk_read (4096 * n + off) k d"
  by (simp add: list_eq_iff_nth_eq dev_block_def add.assoc)

definition mkfs_image :: "mkenv \<Rightarrow> (nat \<Rightarrow> u8) \<Rightarrow> nat \<Rightarrow> u8" where
  "mkfs_image e d =
     blk_write 12288 welcomefile_body
       (blk_write 8192 (record_bytes e welcome_name 2)
         (blk_write 4128 (inode_bytes e welcome_inode)
           (blk_write 4096 (inode_bytes e mkfs_root) (blk_write 0 (super_bytes mkfs_super) d))))"

text \<open>The environment does all the program asks for.\<close>

definition writes_all :: "mkenv \<Rightarrow> bool" where
  "writes_all e \<longleftrightarrow> (\<forall>n len. write_result e n len = int len) \<and> (\<forall>n. \<not> lseek_fails e n) \<and> \<not> open_fails e"

lemma length_super_bytes [simp]: "length (super_bytes sb) = 4096"
  by (simp add: super_bytes_def)

lemma length_inode_bytes [simp]: "length (inode_bytes e nd) = 32"
  by (simp add: inode_bytes_def)

lemma length_record_bytes: "length name \<le> 255 \<Longrightarrow> length (record_bytes e name no) = 264"
  by (simp add: record_bytes_def)

lemma length_welcome_name: "length welcome_name = 8"
  by (simp add: welcome_name_def bytes_of_def)

lemma length_welcomefile_body: "length welcomefile_body = 41"
  by (simp add: welcomefile_body_def bytes_of_def cstr_def)

lemma mkfs_main_image:
  assumes "writes_all e" "pos s = 0"
  shows "\<exists>s'. mkfs_main e 2 s = (0, s') \<and> dev s' = mkfs_image e (dev s)"
  using assms length_record_bytes [of welcome_name e 2] length_welcome_name
  by (simp add: mkfs_main_def write_superblock_def write_inode_store_def write_inode_def write_dirent_def
      write_block_def sys_write_def sys_lseek_def writes_all_def mkfs_image_def Let_def)

lemma rd_inode_bytes:
  assumes "\<And>off k. off + k \<le> 32 \<Longrightarrow> blk_read (32 * i + off) k b = take k (drop off (inode_bytes e nd))"
  shows "rd_inode i b = nd"
proof -
  have m: "blk_read (32 * i) 4 b = le_bytes 4 (ucast (mode nd))"
    using assms [of 0 4] by (simp add: inode_bytes_def)
  have u: "blk_read (32 * i + 8) 8 b = le_bytes 8 (inode_no nd)"
    "blk_read (32 * i + 16) 8 b = le_bytes 8 (data_block_number nd)"
    "blk_read (32 * i + 24) 8 b = le_bytes 8 (isize nd)"
    using assms [of 8 8] assms [of 16 8] assms [of 24 8] by (simp_all add: inode_bytes_def)
  show ?thesis
    by (cases nd) (use m u in \<open>simp add: rd_inode_def get_u32_def get_u64_def\<close>)
qed

lemma mkfs_image_read:
  "off + k \<le> 4096 \<Longrightarrow> blk_read off k (mkfs_image e d) = take k (drop off (super_bytes mkfs_super))"
  "4096 \<le> off \<Longrightarrow> off + k \<le> 4128 \<Longrightarrow> blk_read off k (mkfs_image e d) = take k (drop (off - 4096) (inode_bytes e mkfs_root))"
  "4128 \<le> off \<Longrightarrow> off + k \<le> 4160 \<Longrightarrow> blk_read off k (mkfs_image e d) = take k (drop (off - 4128) (inode_bytes e welcome_inode))"
  "4160 \<le> off \<Longrightarrow> off + k \<le> 8192 \<Longrightarrow> blk_read off k (mkfs_image e d) = blk_read off k d"
  "8192 \<le> off \<Longrightarrow> off + k \<le> 8456 \<Longrightarrow> blk_read off k (mkfs_image e d) = take k (drop (off - 8192) (record_bytes e welcome_name 2))"
  "8456 \<le> off \<Longrightarrow> off + k \<le> 12288 \<Longrightarrow> blk_read off k (mkfs_image e d) = blk_read off k d"
  "blk_read 12288 41 (mkfs_image e d) = welcomefile_body"
  "12329 \<le> off \<Longrightarrow> blk_read off k (mkfs_image e d) = blk_read off k d"
  using length_record_bytes [of welcome_name e 2] length_welcome_name length_welcomefile_body
  by (simp_all add: mkfs_image_def blk_read_write_inside blk_read_write_other)

lemma mkfs_image_slack: "40 \<le> k \<Longrightarrow> k < 4096 \<Longrightarrow> mkfs_image e d k = 0"
proof -
  assume k: "40 \<le> k" "k < 4096"
  have "[mkfs_image e d k] = take 1 (drop k (super_bytes mkfs_super))"
    using mkfs_image_read(1) [of k 1 e d] k by (simp add: blk_read_def)
  moreover have "drop k (super_bytes mkfs_super) = replicate (4096 - k) 0" using k by (simp add: super_bytes_def)
  ultimately show ?thesis using k by (cases "4096 - k") simp_all
qed

lemma mkfs_image_untouched:
  "4160 \<le> k \<and> k < 8192 \<or> 8456 \<le> k \<and> k < 12288 \<or> 12329 \<le> k \<Longrightarrow> mkfs_image e d k = d k"
  using mkfs_image_read(4,6,8) [of k 1] by (auto simp: blk_read_def)

lemma mkfs_image_super: "rd_super (dev_block (mkfs_image e d) 0) = mkfs_super"
  by (rule simplefs_super_block.equality)
    (simp_all add: rd_super_def get_u64_def dev_block_read mkfs_image_read super_bytes_def)

lemma mkfs_image_inodes:
  "rd_inode i (dev_block (mkfs_image e d) 1) =
     (if i = 0 then mkfs_root else if i = 1 then welcome_inode else rd_inode i (dev_block d 1))" if "i < 128"
proof -
  consider "i = 0" | "i = 1" | "2 \<le> i" by linarith
  then show ?thesis
  proof cases
    case 1
    have "rd_inode 0 (dev_block (mkfs_image e d) 1) = mkfs_root"
      by (rule rd_inode_bytes [where e = e]) (simp add: dev_block_read mkfs_image_read)
    then show ?thesis using 1 by simp
  next
    case 2
    have "rd_inode 1 (dev_block (mkfs_image e d) 1) = welcome_inode"
      by (rule rd_inode_bytes [where e = e]) (simp add: dev_block_read mkfs_image_read)
    then show ?thesis using 2 by simp
  next
    case 3
    then show ?thesis using that
      by (simp add: rd_inode_def get_u64_def get_u32_def dev_block_read mkfs_image_read)
  qed
qed

lemma mkfs_image_records:
  "rd_record i (dev_block (mkfs_image e d) 2) =
     (if i = 0 then \<lparr>filename = welcome_name @ replicate 247 0 @ [padding e 0], rec_inode_no = 2\<rparr>
      else rd_record i (dev_block d 2))" if "i < 15"
proof (cases "i = 0")
  case True
  then show ?thesis
    using length_welcome_name
    by (simp add: rd_record_def get_u64_def dev_block_read mkfs_image_read record_bytes_def)
next
  case False
  then have "1 \<le> i" by simp
  then show ?thesis using that
    by (simp add: rd_record_def get_u64_def dev_block_read mkfs_image_read)
qed

lemma mkfs_super_free: "free_blocks mkfs_super = NOT (push_bit 3 1)"
proof (rule bit_eqI)
  fix n assume "possible_bit TYPE(u64) n"
  show "bit (free_blocks mkfs_super) n \<longleftrightarrow> bit (NOT (push_bit 3 1) :: u64) n"
    by (auto simp: mkfs_super_def int_to_u64_def bit_simps)
qed

text \<open>On a device that was zero before, the image satisfies what a mount needs.\<close>

lemma mkfs_device_ok: "device_ok mkfs_super (dev_block (mkfs_image e (\<lambda>_. 0)) 1)"
proof -
  let ?b = "dev_block (mkfs_image e (\<lambda>_. 0)) 1"
  have "dev_block (\<lambda>_. 0) 1 = (\<lambda>_. 0)" by (simp add: dev_block_def)
  then have rd: "rd_inode i ?b = (if i = 0 then mkfs_root else if i = 1 then welcome_inode else zero_inode)" if "i < 128" for i
    using mkfs_image_inodes [OF that, of e "\<lambda>_. 0"] by (simp add: rd_inode_zero)
  have no: "inode_no mkfs_root = 1" "inode_no welcome_inode = 2" "data_block_number mkfs_root = 2"
    "data_block_number welcome_inode = 3" "mode mkfs_root = 0x4000"
    by (simp_all add: mkfs_root_def welcome_inode_def)
  have used: "used_slots ?b = {0, 1}"
    by (auto simp: used_slots_def slot_used_def rd no simp del: One_nat_def split: if_splits)
  have "numbered ?b" "blocks_inv ?b (NOT (push_bit 3 1))" "root_inv ?b"
    by (auto simp: numbered_def blocks_inv_def root_inv_def used data_block_def slot_used_def rd no one_file_free S_ISDIR_def
        simp del: One_nat_def)
  then show ?thesis using used by (simp add: device_ok_def mkfs_super_free) (simp add: mkfs_super_def)
qed

lemma mkfs_image_matches_iff:
  assumes "0 \<notin> set y"
  shows "matches (dev_block (mkfs_image e d) 2) 0 y \<longleftrightarrow> y = welcome_name"
proof -
  have "replicate 247 (0 :: u8) = 0 # replicate 246 0" using replicate_Suc [of 246 "0 :: u8"] by simp
  then have "filename (rd_record 0 (dev_block (mkfs_image e d) 2)) = cstr welcome_name @ replicate 246 0 @ [padding e 0]"
    by (simp add: mkfs_image_records cstr_def)
  moreover have "0 \<notin> set welcome_name" by (simp add: welcome_name_def bytes_of_def)
  ultimately show ?thesis using assms by (auto simp: matches_def strcmp_eq_cstr_cstr)
qed

lemma mkfs_image_matches: "matches (dev_block (mkfs_image e d) 2) 0 welcome_name"
  by (subst mkfs_image_matches_iff) (simp_all add: welcome_name_def bytes_of_def)

section \<open>Properties\<close>

text \<open>C19: formatting writes the file system the kernel module expects.  When every call succeeds, \<open>mkfs-simplefs\<close>
  returns 0 and the device then has the super block in block 0; the root inode and the inode of the welcome
  file in the first two slots of block 1; the record \<open>vanakkam\<close> for inode 2 first in block 2, the root directory; the text
  of the welcome file at the start of block 3.  The rest of block 0 is zero, and the bytes of block 1 behind the two inodes, of
  block 2 behind the record, of block 3 behind the text and of all other blocks are as before.  (The \<open>README\<close> has the
  initial file in block 2.)  On a zeroed device the result satisfies the
  consistency conditions of a mount.\<close>

theorem mkfs_formats:
  assumes "writes_all e" "pos s = 0"
  shows "\<exists>s'. mkfs_main e 2 s = (0, s') \<and>
    rd_super (dev_block (dev s') 0) =
      \<lparr>version = 1, magic = SIMPLEFS_MAGIC, block_size = 4096, inodes_count = 2, free_blocks = NOT (push_bit 3 1)\<rparr> \<and>
    rd_inode 0 (dev_block (dev s') 1) = \<lparr>mode = 0x4000, inode_no = 1, data_block_number = 2, isize = 1\<rparr> \<and>
    rd_inode 1 (dev_block (dev s') 1) = \<lparr>mode = 0x8000, inode_no = 2, data_block_number = 3, isize = 41\<rparr> \<and>
    (\<forall>i. 2 \<le> i \<and> i < 128 \<longrightarrow> rd_inode i (dev_block (dev s') 1) = rd_inode i (dev_block (dev s) 1)) \<and>
    matches (dev_block (dev s') 2) 0 welcome_name \<and> rec_inode_no (rd_record 0 (dev_block (dev s') 2)) = 2 \<and>
    (\<forall>i. 1 \<le> i \<and> i < 15 \<longrightarrow> rd_record i (dev_block (dev s') 2) = rd_record i (dev_block (dev s) 2)) \<and>
    filename (rd_record 0 (dev_block (dev s') 2)) = welcome_name @ replicate 247 0 @ [padding e 0] \<and>
    blk_read 0 41 (dev_block (dev s') 3) = welcomefile_body \<and>
    (\<forall>k. 40 \<le> k \<and> k < 4096 \<longrightarrow> dev s' k = 0) \<and>
    (\<forall>k. 4160 \<le> k \<and> k < 8192 \<or> 8456 \<le> k \<and> k < 12288 \<or> 12329 \<le> k \<longrightarrow> dev s' k = dev s k) \<and>
    (\<forall>n \<ge> 4. dev_block (dev s') n = dev_block (dev s) n) \<and>
    (dev s = (\<lambda>_. 0) \<longrightarrow> device_ok (rd_super (dev_block (dev s') 0)) (dev_block (dev s') 1))"
proof -
  obtain s' where s': "mkfs_main e 2 s = (0, s')" "dev s' = mkfs_image e (dev s)"
    using mkfs_main_image [OF assms] by blast
  have sup: "mkfs_super = \<lparr>version = 1, magic = SIMPLEFS_MAGIC, block_size = 4096, inodes_count = 2, free_blocks = NOT (push_bit 3 1)\<rparr>"
    using mkfs_super_free by (cases mkfs_super) (simp add: mkfs_super_def)
  have "matches (dev_block (dev s') 2) 0 welcome_name"
    using mkfs_image_matches by (simp add: s'(2))
  moreover have "dev_block (dev s') n = dev_block (dev s) n" if "4 \<le> n" for n
  proof
    fix i
    have "blk_read (4096 * n + i) 1 (mkfs_image e (dev s)) = blk_read (4096 * n + i) 1 (dev s)"
      using that by (intro mkfs_image_read(8)) simp
    then show "dev_block (dev s') n i = dev_block (dev s) n i" by (simp add: dev_block_def s'(2) blk_read_def)
  qed
  moreover have "\<forall>k. 40 \<le> k \<and> k < 4096 \<longrightarrow> dev s' k = 0"
    "\<forall>k. 4160 \<le> k \<and> k < 8192 \<or> 8456 \<le> k \<and> k < 12288 \<or> 12329 \<le> k \<longrightarrow> dev s' k = dev s k"
    using mkfs_image_slack [of _ e "dev s"] mkfs_image_untouched [of _ e "dev s"] by (simp_all add: s'(2))
  moreover have "mkfs_root = \<lparr>mode = 0x4000, inode_no = 1, data_block_number = 2, isize = 1\<rparr>"
    "welcome_inode = \<lparr>mode = 0x8000, inode_no = 2, data_block_number = 3, isize = 41\<rparr>"
    by (simp_all add: mkfs_root_def welcome_inode_def length_welcomefile_body)
  ultimately show ?thesis
    using s' mkfs_image_super [of e "dev s"] mkfs_device_ok [of e] sup
    by (auto simp: mkfs_image_inodes mkfs_image_records dev_block_read mkfs_image_read
        length_welcomefile_body simp del: One_nat_def)
qed

definition good_mkenv :: mkenv where
  "good_mkenv = \<lparr>write_result = (\<lambda>_ len. int len), lseek_fails = (\<lambda>_. False), open_fails = False, padding = (\<lambda>_. 0)\<rparr>"

definition blank_fd :: fdstate where
  "blank_fd = \<lparr>dev = (\<lambda>_. 0), pos = 0, calls = 0\<rparr>"

lemma good_mkenv: "writes_all good_mkenv"
  by (simp add: writes_all_def good_mkenv_def)

theorem mkfs_formats_witness:
  "\<exists>s'. mkfs_main good_mkenv 2 blank_fd = (0, s') \<and> blk_read 0 41 (dev_block (dev s') 3) = welcomefile_body \<and>
    device_ok (rd_super (dev_block (dev s') 0)) (dev_block (dev s') 1)"
  using mkfs_formats [OF good_mkenv, of blank_fd] by (auto simp: blank_fd_def)

text \<open>C33: \<open>mkfs-simplefs\<close> succeeds exactly when everything did: it returns 0 if and only if it has one argument, the
  device can be opened, each of its five \<open>write\<close> calls writes all bytes, and both \<open>lseek\<close> calls succeed.\<close>

theorem mkfs_reports_errors:
  assumes "calls s = 0"
  shows "fst (mkfs_main e argc s) = 0 \<longleftrightarrow>
    argc = 2 \<and> \<not> open_fails e \<and> 4096 \<le> write_result e 0 4096 \<and> 32 \<le> write_result e 1 32 \<and>
    32 \<le> write_result e 2 32 \<and> \<not> lseek_fails e 3 \<and> 264 \<le> write_result e 4 264 \<and> \<not> lseek_fails e 5 \<and>
    41 \<le> write_result e 6 41"
proof -
  have full: "(if r < 0 then - 1 else int (min n (nat r))) = int n \<longleftrightarrow> int n \<le> r" for r n
    by auto
  have call: "2 = Suc (Suc 0)" "3 = Suc 2" "4 = Suc 3" "5 = Suc 4" "6 = Suc 5" by simp_all
  note len = length_record_bytes [of welcome_name e 2] length_welcome_name length_welcomefile_body
  show ?thesis
    using assms len full [where n = 4096] full [where n = 32] full [where n = 264] full [where n = 41]
    by (simp add: mkfs_main_def write_superblock_def write_inode_store_def write_inode_def write_dirent_def
        write_block_def sys_write_def sys_lseek_def Let_def call del: Suc_numeral)
qed

theorem mkfs_reports_errors_witness:
  "fst (mkfs_main (good_mkenv\<lparr>write_result := (\<lambda>n len. if n = 6 then 40 else int len)\<rparr>) 2 blank_fd) \<noteq> 0"
  using mkfs_reports_errors [of blank_fd "good_mkenv\<lparr>write_result := (\<lambda>n len. if n = 6 then 40 else int len)\<rparr>" 2]
  by (simp add: blank_fd_def)

end
