(* ===== verification/Global_Fifo.thy ===== *)
theory Global_Fifo
  imports Sfs_Prelude
begin

text \<open>
  The character device of \<open>globalfifo/globalfifo.c\<close>: a ten-byte queue with blocking reads and writes, a clear
  command and \<open>poll\<close>.  A call is split where the task sleeps and where it releases the semaphore: the first part
  runs from the call to \<open>schedule()\<close> or to \<open>up\<close> at \<open>out\<close>, the second from the wake-up to \<open>up\<close>, and what follows the
  label \<open>out2\<close>, outside the semaphore, has steps of its own.  All accesses to the device
  between \<open>down\<close> and \<open>up\<close> exclude each other, so each part is one step.  \<open>down\<close> blocks while the
  semaphore is taken, so a part that begins with it is only entered with the semaphore free; the steps of
  the system are the relation \<open>fifo_step\<close>.  The number of bytes a user copy leaves undone and
  whether a signal is pending are arguments.

  Both handlers end with \<open>remove_wait_queue(&dev->w_wait, &wait)\<close>.  For a writer this names the queue its entry is
  on, and the lock of \<open>w_wait\<close> makes the removal one step.  A reader's entry is on \<open>r_wait\<close>: it is unlinked
  there under the lock of the other queue, so operations on \<open>r_wait\<close>, which take the lock of \<open>r_wait\<close>, can run in
  the middle of it.  The removal of a reader therefore has two steps, and an operation on \<open>r_wait\<close>
  between them is recorded in \<open>raced\<close>.  A part has at most one operation on \<open>r_wait\<close> and is placed
  at its moment; its operations on \<open>w_wait\<close>, which wait for the lock of \<open>w_wait\<close>, commute with the removal.
\<close>

section \<open>State\<close>

abbreviation (input) GLOBALFIFO_SIZE :: nat where "GLOBALFIFO_SIZE \<equiv> 10"
abbreviation (input) FIFO_CLEAR :: u32 where "FIFO_CLEAR \<equiv> 1"
abbreviation (input) POLLIN :: u32 where "POLLIN \<equiv> 1"
abbreviation (input) POLLOUT :: u32 where "POLLOUT \<equiv> 4"
abbreviation (input) POLLRDNORM :: u32 where "POLLRDNORM \<equiv> 64"
abbreviation (input) POLLWRNORM :: u32 where "POLLWRNORM \<equiv> 256"

record globalfifo_dev =
  current_len :: u32
  mem :: bytes

text \<open>
  A task is in user mode; sleeps in a read or a write with the arguments of its call; has reached \<open>out2\<close> of a read or a
  write with the value it will return; or is in the kernel's \<open>poll\<close>.  A wait queue entry belongs to a task in one of
  the handlers or to the poll table of a task.  \<open>w_lock\<close> is the reader that is unlinking its entry under the lock
  of \<open>w_wait\<close>, \<open>triggered\<close> the flag of a poll table.
\<close>

datatype task = User | Read_sleep u64 | Write_sleep bytes | Read_out2 int | Write_out2 int | Polling

datatype waiter = Task nat | Poller nat

record fifo_sys =
  fifo :: globalfifo_dev
  sem :: nat
  r_wait :: "waiter list"
  w_wait :: "waiter list"
  w_lock :: "nat option"
  raced :: bool
  tasks :: "nat \<Rightarrow> task"
  runnable :: "nat \<Rightarrow> bool"
  triggered :: "nat \<Rightarrow> bool"

section \<open>Kernel services\<close>

definition down :: "fifo_sys \<Rightarrow> fifo_sys" where
  "down s = s\<lparr>sem := sem s - 1\<rparr>"

definition up :: "fifo_sys \<Rightarrow> fifo_sys" where
  "up s = s\<lparr>sem := sem s + 1\<rparr>"

text \<open>A wake-up makes the tasks of a queue runnable and triggers its pollers.\<close>

definition wake_up_interruptible :: "waiter list \<Rightarrow> fifo_sys \<Rightarrow> fifo_sys" where
  "wake_up_interruptible q s = s\<lparr>runnable := (\<lambda>t. Task t \<in> set q \<or> runnable s t),
     triggered := (\<lambda>t. Poller t \<in> set q \<or> triggered s t)\<rparr>"

text \<open>An operation on \<open>r_wait\<close> under its own lock: it races with a reader that is unlinking its entry under the other lock.\<close>

definition r_wait_op :: "fifo_sys \<Rightarrow> fifo_sys" where
  "r_wait_op s = s\<lparr>raced := (raced s \<or> w_lock s \<noteq> None)\<rparr>"

text \<open>\<open>poll_wait\<close> on both queues puts an entry of the poll table on each, unless the table asks for none, as it does
  when the kernel polls again.  \<open>poll_initwait\<close> and \<open>poll_freewait\<close> are the kernel's begin and end of a poll.\<close>

definition poll_wait_r :: "nat \<Rightarrow> bool \<Rightarrow> fifo_sys \<Rightarrow> fifo_sys" where
  "poll_wait_r t registering s = (if registering then r_wait_op (s\<lparr>r_wait := Poller t # r_wait s\<rparr>) else s)"

definition poll_wait_w :: "nat \<Rightarrow> bool \<Rightarrow> fifo_sys \<Rightarrow> fifo_sys" where
  "poll_wait_w t registering s = (if registering then s\<lparr>w_wait := Poller t # w_wait s\<rparr> else s)"

definition poll_initwait :: "nat \<Rightarrow> fifo_sys \<Rightarrow> fifo_sys" where
  "poll_initwait t s = s\<lparr>tasks := (tasks s)(t := Polling), triggered := (triggered s)(t := False)\<rparr>"

definition poll_freewait :: "nat \<Rightarrow> fifo_sys \<Rightarrow> fifo_sys" where
  "poll_freewait t s = r_wait_op (s\<lparr>r_wait := removeAll (Poller t) (r_wait s), w_wait := removeAll (Poller t) (w_wait s),
     tasks := (tasks s)(t := User)\<rparr>)"

text \<open>The jump to \<open>out2\<close>, by a task that is running, with the value to return.\<close>

definition to_out2 :: "nat \<Rightarrow> task \<Rightarrow> fifo_sys \<Rightarrow> fifo_sys" where
  "to_out2 t x s = s\<lparr>tasks := (tasks s)(t := x), runnable := (runnable s)(t := True)\<rparr>"

text \<open>
  The end of the handlers: \<open>remove_wait_queue(&dev->w_wait, &wait)\<close>, which unlinks the entry from the list it is on,
  \<open>set_current_state(TASK_RUNNING)\<close> and \<open>return ret\<close>.  A reader takes the lock of \<open>w_wait\<close> in \<open>read_out2_lock\<close>.
\<close>

definition read_out2_lock :: "nat \<Rightarrow> fifo_sys \<Rightarrow> fifo_sys" where
  "read_out2_lock t s = s\<lparr>w_lock := Some t\<rparr>"

definition read_out2 :: "nat \<Rightarrow> int \<Rightarrow> fifo_sys \<Rightarrow> int \<times> fifo_sys" where
  "read_out2 t ret s = (ret, s\<lparr>w_lock := None, r_wait := removeAll (Task t) (r_wait s),
     tasks := (tasks s)(t := User), runnable := (runnable s)(t := True)\<rparr>)"

definition write_out2 :: "nat \<Rightarrow> int \<Rightarrow> fifo_sys \<Rightarrow> int \<times> fifo_sys" where
  "write_out2 t ret s = (ret, s\<lparr>w_wait := removeAll (Task t) (w_wait s),
     tasks := (tasks s)(t := User), runnable := (runnable s)(t := True)\<rparr>)"

text \<open>\<open>memcpy(mem, mem + count, n)\<close> as the kernel copies, from the first byte on.\<close>

fun memcpy_down :: "nat \<Rightarrow> nat \<Rightarrow> nat \<Rightarrow> bytes \<Rightarrow> bytes" where
  "memcpy_down dst src 0 m = m"
| "memcpy_down dst src (Suc n) m = memcpy_down (Suc dst) (Suc src) n (m[dst := m ! src])"

section \<open>The device\<close>

text \<open>The parts of \<open>globalfifo_read\<close> and \<open>globalfifo_write\<close> after the wait (lines 122 to 150 and 222 to 256).\<close>

definition fifo_take :: "u64 \<Rightarrow> nat \<Rightarrow> globalfifo_dev \<Rightarrow> ((int \<times> bytes) \<times> globalfifo_dev) outcome" where
  "fifo_take count left dv =
     (let count = (if ucast (current_len dv) < count then ucast (current_len dv) else count);
          n = unat count; left = min n left in
      bnd (guard (n \<le> GLOBALFIFO_SIZE) Out_of_bounds) (\<lambda>_.
      if left \<noteq> 0 then Done ((- EFAULT, take (n - left) (mem dv)), dv)
      else bnd (guard (unat (current_len dv) \<le> GLOBALFIFO_SIZE) Out_of_bounds) (\<lambda>_.
      Done ((int n, take n (mem dv)),
            dv\<lparr>mem := memcpy_down 0 n (unat (current_len dv) - n) (mem dv),
               current_len := current_len dv - of_nat n\<rparr>))))"

definition fifo_put :: "bytes \<Rightarrow> nat \<Rightarrow> globalfifo_dev \<Rightarrow> (int \<times> globalfifo_dev) outcome" where
  "fifo_put buf left dv =
     (let room = of_nat GLOBALFIFO_SIZE - current_len dv;
          n = (if unat room < length buf then unat room else length buf);
          off = unat (current_len dv); left = min n left in
      bnd (guard (n = 0 \<or> off + n \<le> GLOBALFIFO_SIZE) Out_of_bounds) (\<lambda>_.
      let m = take off (mem dv) @ take (n - left) buf @ replicate left 0 @ drop (off + n) (mem dv) in
      if left \<noteq> 0 then Done (- EFAULT, dv\<lparr>mem := m\<rparr>)
      else Done (int n, dv\<lparr>mem := m, current_len := current_len dv + of_nat n\<rparr>)))"

text \<open>The result of a handler part: the value it returns after \<open>out2\<close> and the bytes copied to user space, or that the task sleeps.\<close>

datatype reply = Returns int bytes | Sleeps

definition read_tail :: "nat \<Rightarrow> u64 \<Rightarrow> nat \<Rightarrow> fifo_sys \<Rightarrow> (reply \<times> fifo_sys) outcome" where
  "read_tail t count left s =
     bnd (fifo_take count left (fifo s)) (\<lambda>((ret, bs), dv).
     let s = s\<lparr>fifo := dv\<rparr>;
         s = (if ret < 0 then s else wake_up_interruptible (w_wait s) s) in
     Done (Returns ret bs, to_out2 t (Read_out2 ret) (up s)))"

definition globalfifo_read :: "nat \<Rightarrow> bool \<Rightarrow> u64 \<Rightarrow> nat \<Rightarrow> fifo_sys \<Rightarrow> (reply \<times> fifo_sys) outcome" where
  "globalfifo_read t nonblock count left s =
     (let s = down s;
          s = r_wait_op (s\<lparr>r_wait := Task t # r_wait s\<rparr>) in
      if current_len (fifo s) = 0
      then if nonblock then Done (Returns (- EAGAIN) [], to_out2 t (Read_out2 (- EAGAIN)) (up s))
           else Done (Sleeps, up (s\<lparr>tasks := (tasks s)(t := Read_sleep count), runnable := (runnable s)(t := False)\<rparr>))
      else read_tail t count left s)"

definition globalfifo_read_resume :: "nat \<Rightarrow> u64 \<Rightarrow> bool \<Rightarrow> nat \<Rightarrow> fifo_sys \<Rightarrow> (reply \<times> fifo_sys) outcome" where
  "globalfifo_read_resume t count signal_pending left s =
     (if signal_pending then Done (Returns (- ERESTARTSYS) [], to_out2 t (Read_out2 (- ERESTARTSYS)) s)
      else read_tail t count left (down s))"

definition write_tail :: "nat \<Rightarrow> bytes \<Rightarrow> nat \<Rightarrow> fifo_sys \<Rightarrow> (reply \<times> fifo_sys) outcome" where
  "write_tail t buf left s =
     bnd (fifo_put buf left (fifo s)) (\<lambda>(ret, dv).
     let s = s\<lparr>fifo := dv\<rparr>;
         s = (if ret < 0 then s else wake_up_interruptible (r_wait s) (r_wait_op s)) in
     Done (Returns ret [], to_out2 t (Write_out2 ret) (up s)))"

definition globalfifo_write :: "nat \<Rightarrow> bool \<Rightarrow> bytes \<Rightarrow> nat \<Rightarrow> fifo_sys \<Rightarrow> (reply \<times> fifo_sys) outcome" where
  "globalfifo_write t nonblock buf left s =
     (let s = down s;
          s = s\<lparr>w_wait := Task t # w_wait s\<rparr> in
      if current_len (fifo s) = of_nat GLOBALFIFO_SIZE
      then if nonblock then Done (Returns (- EAGAIN) [], to_out2 t (Write_out2 (- EAGAIN)) (up s))
           else Done (Sleeps, up (s\<lparr>tasks := (tasks s)(t := Write_sleep buf), runnable := (runnable s)(t := False)\<rparr>))
      else write_tail t buf left s)"

definition globalfifo_write_resume :: "nat \<Rightarrow> bytes \<Rightarrow> bool \<Rightarrow> nat \<Rightarrow> fifo_sys \<Rightarrow> (reply \<times> fifo_sys) outcome" where
  "globalfifo_write_resume t buf signal_pending left s =
     (if signal_pending then Done (Returns (- ERESTARTSYS) [], to_out2 t (Write_out2 (- ERESTARTSYS)) s)
      else write_tail t buf left (down s))"

definition globalfifo_ioctl :: "u32 \<Rightarrow> fifo_sys \<Rightarrow> int \<times> fifo_sys" where
  "globalfifo_ioctl cmd s =
     (if cmd = FIFO_CLEAR
      then let s = down s;
               s = s\<lparr>fifo := (fifo s)\<lparr>current_len := 0, mem := replicate GLOBALFIFO_SIZE 0\<rparr>\<rparr>
           in (0, up s)
      else (- EINVAL, s))"

definition globalfifo_poll :: "nat \<Rightarrow> bool \<Rightarrow> fifo_sys \<Rightarrow> u32 \<times> fifo_sys" where
  "globalfifo_poll t registering s =
     (let s = down s;
          s = poll_wait_r t registering s;
          s = poll_wait_w t registering s;
          mask = 0;
          mask = (if current_len (fifo s) \<noteq> 0 then mask OR (POLLIN OR POLLRDNORM) else mask);
          mask = (if current_len (fifo s) \<noteq> of_nat GLOBALFIFO_SIZE then mask OR (POLLOUT OR POLLWRNORM) else mask)
      in (mask, up s))"

section \<open>Initialisation\<close>

text \<open>
  The module: the device number region, the device object, and whether the device is registered with the kernel.
  The results of the region registration and of the allocation are arguments; the result of \<open>cdev_add\<close> is only logged.
  The device object is zeroed by \<open>memset\<close>, registered, and only then given its semaphore and wait queues.
  \<open>globalfifo_open\<close> returns the device it stores in \<open>filp->private_data\<close>.
\<close>

record fifo_module =
  globalfifo_major :: int
  region :: bool
  globalfifo_devp :: "fifo_sys option"
  cdev_added :: bool

definition idle_fifo :: fifo_sys where
  "idle_fifo = \<lparr>fifo = \<lparr>current_len = 0, mem = replicate GLOBALFIFO_SIZE 0\<rparr>, sem = 1, r_wait = [], w_wait = [],
     w_lock = None, raced = False, tasks = (\<lambda>_. User), runnable = (\<lambda>_. True), triggered = (\<lambda>_. False)\<rparr>"

definition globalfifo_setup_cdev :: "int \<Rightarrow> fifo_module \<Rightarrow> fifo_module" where
  "globalfifo_setup_cdev err md = md\<lparr>cdev_added := (err = 0)\<rparr>"

definition globalfifo_init :: "int \<Rightarrow> int \<Rightarrow> int \<Rightarrow> bool \<Rightarrow> int \<Rightarrow> fifo_module \<Rightarrow> int \<times> fifo_module" where
  "globalfifo_init register_ret alloc_ret alloc_major kmalloc_ok cdev_err md =
     (let (ret, md) = (if globalfifo_major md \<noteq> 0 then (register_ret, md)
                       else (alloc_ret, md\<lparr>globalfifo_major := alloc_major\<rparr>)) in
      if ret < 0 then (ret, md)
      else let md = md\<lparr>region := True\<rparr> in
      if \<not> kmalloc_ok then (- ENOMEM, md\<lparr>region := False, globalfifo_devp := None\<rparr>)
      else let md = md\<lparr>globalfifo_devp := Some (idle_fifo\<lparr>sem := 0\<rparr>)\<rparr>;
               md = globalfifo_setup_cdev cdev_err md;
               md = md\<lparr>globalfifo_devp := map_option (\<lambda>s. s\<lparr>sem := 1, r_wait := [], w_wait := []\<rparr>) (globalfifo_devp md)\<rparr>
           in (0, md))"

definition globalfifo_exit :: "fifo_module \<Rightarrow> fifo_module" where
  "globalfifo_exit md = md\<lparr>cdev_added := False, globalfifo_devp := None, region := False\<rparr>"

definition globalfifo_open :: "fifo_module \<Rightarrow> int \<times> fifo_sys option" where
  "globalfifo_open md = (0, globalfifo_devp md)"

definition globalfifo_release :: "fifo_sys option \<Rightarrow> int \<times> fifo_sys option" where
  "globalfifo_release private_data = (0, private_data)"

section \<open>The device as a byte queue\<close>

definition dev_ok :: "globalfifo_dev \<Rightarrow> bool" where
  "dev_ok dv \<longleftrightarrow> length (mem dv) = GLOBALFIFO_SIZE \<and> unat (current_len dv) \<le> GLOBALFIFO_SIZE"

definition contents :: "globalfifo_dev \<Rightarrow> bytes" where
  "contents dv = take (unat (current_len dv)) (mem dv)"

lemma memcpy_down_eq:
  "dst \<le> src \<Longrightarrow> src + n \<le> length m \<Longrightarrow>
   memcpy_down dst src n m = take dst m @ take n (drop src m) @ drop (dst + n) m"
proof (induction n arbitrary: dst src m)
  case 0
  show ?case by simp
next
  case (Suc n)
  let ?m = "m[dst := m ! src]"
  have "memcpy_down dst src (Suc n) m = take (Suc dst) ?m @ take n (drop (Suc src) ?m) @ drop (Suc dst + n) ?m"
    using Suc by simp
  also have "take (Suc dst) ?m = take dst m @ [m ! src]" using Suc.prems by (simp add: take_Suc_conv_app_nth)
  also have "drop (Suc src) ?m = drop (Suc src) m" using Suc.prems by (simp add: drop_update_cancel)
  also have "drop (Suc dst + n) ?m = drop (Suc dst + n) m" by (simp add: drop_update_cancel)
  also have "(take dst m @ [m ! src]) @ take n (drop (Suc src) m) @ drop (Suc dst + n) m =
      take dst m @ take (Suc n) (drop src m) @ drop (dst + Suc n) m"
    using Suc.prems by (simp add: Cons_nth_drop_Suc [symmetric])
  finally show ?case .
qed

lemma unat_ucast_len: "unat (ucast (w :: u32) :: u64) = unat w"
proof -
  have "unat w < 2 ^ 32" using unsigned_less [of w] by simp
  then show ?thesis by (simp add: unsigned_ucast_eq take_bit_nat_eq_self)
qed

lemma length_contents: "dev_ok dv \<Longrightarrow> length (contents dv) = unat (current_len dv)"
  by (simp add: dev_ok_def contents_def)

lemma of_nat_len: "n \<le> GLOBALFIFO_SIZE \<Longrightarrow> unat (of_nat n :: u32) = n"
  by (simp add: unat_of_nat)

lemma fifo_take_spec:
  assumes "dev_ok dv" "n = min (unat count) (length (contents dv))"
  shows "\<exists>dv'. fifo_take count 0 dv = Done ((int n, take n (contents dv)), dv') \<and> dev_ok dv' \<and>
    contents dv' = drop n (contents dv)"
proof -
  have len: "length (mem dv) = 10" "unat (current_len dv) \<le> 10" using assms(1) by (simp_all add: dev_ok_def)
  have n: "n \<le> unat (current_len dv)" "n \<le> 10" using assms len by (simp_all add: length_contents)
  have cnt: "unat (if ucast (current_len dv) < count then ucast (current_len dv) else count) = n"
    using assms by (simp add: length_contents word_less_nat_alt unat_ucast_len)
  let ?dv = "dv\<lparr>mem := memcpy_down 0 n (unat (current_len dv) - n) (mem dv), current_len := current_len dv - of_nat n\<rparr>"
  have mc: "memcpy_down 0 n (unat (current_len dv) - n) (mem dv)
      = take (unat (current_len dv) - n) (drop n (mem dv)) @ drop (unat (current_len dv) - n) (mem dv)"
    using n len by (simp add: memcpy_down_eq)
  have cl: "unat (current_len dv - of_nat n) = unat (current_len dv) - n"
    using n by (simp add: unat_sub_if' of_nat_len)
  have "fifo_take count 0 dv = Done ((int n, take n (mem dv)), ?dv)"
    unfolding fifo_take_def Let_def cnt using n len by simp
  moreover have "take n (mem dv) = take n (contents dv)" using n by (simp add: contents_def)
  moreover have "dev_ok ?dv" using n len by (simp add: dev_ok_def mc cl)
  moreover have "contents ?dv = drop n (contents dv)" using n len by (simp add: contents_def mc cl drop_take)
  ultimately show ?thesis by metis
qed

lemma fifo_put_spec:
  assumes "dev_ok dv" "n = min (length buf) (GLOBALFIFO_SIZE - length (contents dv))"
  shows "\<exists>dv'. fifo_put buf 0 dv = Done (int n, dv') \<and> dev_ok dv' \<and> contents dv' = contents dv @ take n buf"
proof -
  let ?c = "unat (current_len dv)"
  have len: "length (mem dv) = 10" "?c \<le> 10" using assms(1) by (simp_all add: dev_ok_def)
  have room: "unat (10 - current_len dv) = 10 - ?c" using len by (simp add: unat_sub_if')
  have n: "?c + n \<le> 10" "n \<le> length buf" using assms len by (simp_all add: length_contents)
  let ?m = "take ?c (mem dv) @ take n buf @ drop (?c + n) (mem dv)"
  let ?dv = "dv\<lparr>mem := ?m, current_len := current_len dv + of_nat n\<rparr>"
  have "(if unat (10 - current_len dv) < length buf then unat (10 - current_len dv) else length buf) = n"
    using assms room by (simp add: length_contents)
  then have "fifo_put buf 0 dv = Done (int n, ?dv)" using n by (simp add: fifo_put_def Let_def)
  moreover have cl: "unat (current_len dv + of_nat n) = ?c + n" using n by (simp add: unat_word_ariths of_nat_len)
  moreover have "dev_ok ?dv" using n len cl by (simp add: dev_ok_def)
  moreover have "contents ?dv = contents dv @ take n buf" using n len cl by (simp add: contents_def)
  ultimately show ?thesis by blast
qed

text \<open>
  The contract of a bounded byte queue, and what follows from it for any sequence of operations:
  the bytes taken, followed by those still there, are the bytes that were there, followed by those put.
\<close>

datatype fifo_op = Put bytes | Take u64

fun run_ops ::
    "(u64 \<Rightarrow> 'd \<Rightarrow> ((int \<times> bytes) \<times> 'd) outcome) \<Rightarrow> (bytes \<Rightarrow> 'd \<Rightarrow> (int \<times> 'd) outcome) \<Rightarrow>
     fifo_op list \<Rightarrow> 'd \<Rightarrow> (bytes \<times> bytes \<times> 'd) outcome" where
  "run_ops tk pt [] d = Done ([], [], d)"
| "run_ops tk pt (Take n # ops) d =
     bnd (tk n d) (\<lambda>((r, bs), d). bnd (run_ops tk pt ops d) (\<lambda>(sent, got, d). Done (sent, bs @ got, d)))"
| "run_ops tk pt (Put bs # ops) d =
     bnd (pt bs d) (\<lambda>(r, d). bnd (run_ops tk pt ops d) (\<lambda>(sent, got, d). Done (take (nat r) bs @ sent, got, d)))"

locale byte_queue =
  fixes inv :: "'d \<Rightarrow> bool" and bytes_in :: "'d \<Rightarrow> bytes" and cap :: nat
    and tk :: "u64 \<Rightarrow> 'd \<Rightarrow> ((int \<times> bytes) \<times> 'd) outcome" and pt :: "bytes \<Rightarrow> 'd \<Rightarrow> (int \<times> 'd) outcome"
  assumes bounded: "inv d \<Longrightarrow> length (bytes_in d) \<le> cap"
    and tk_spec: "\<lbrakk>inv d; n = min (unat count) (length (bytes_in d))\<rbrakk> \<Longrightarrow>
      \<exists>d'. tk count d = Done ((int n, take n (bytes_in d)), d') \<and> inv d' \<and> bytes_in d' = drop n (bytes_in d)"
    and pt_spec: "\<lbrakk>inv d; n = min (length bs) (cap - length (bytes_in d))\<rbrakk> \<Longrightarrow>
      \<exists>d'. pt bs d = Done (int n, d') \<and> inv d' \<and> bytes_in d' = bytes_in d @ take n bs"
begin

lemma run_ops_fifo:
  "inv d \<Longrightarrow> \<exists>sent got d'. run_ops tk pt ops d = Done (sent, got, d') \<and> inv d' \<and>
     bytes_in d @ sent = got @ bytes_in d'"
proof (induction ops arbitrary: d)
  case Nil
  then show ?case by simp
next
  case (Cons op ops)
  show ?case
  proof (cases op)
    case (Put bs)
    obtain n d1 where d1: "pt bs d = Done (int n, d1)" "inv d1" "bytes_in d1 = bytes_in d @ take n bs"
      using pt_spec [OF Cons.prems refl] by blast
    then show ?thesis using Cons.IH [OF d1(2)] Put by auto
  next
    case (Take n)
    obtain k d1 where d1: "tk n d = Done ((int k, take k (bytes_in d)), d1)" "inv d1" "bytes_in d1 = drop k (bytes_in d)"
      using tk_spec [OF Cons.prems refl] by blast
    obtain sent got d' where d': "run_ops tk pt ops d1 = Done (sent, got, d')" "inv d'" "bytes_in d1 @ sent = got @ bytes_in d'"
      using Cons.IH [OF d1(2)] by blast
    then have "bytes_in d @ sent = (take k (bytes_in d) @ got) @ bytes_in d'"
      using d1(3) by (metis append.assoc append_take_drop_id)
    then show ?thesis using d1 d' Take by auto
  qed
qed

end

interpretation gfifo: byte_queue dev_ok contents GLOBALFIFO_SIZE "\<lambda>n. fifo_take n 0" "\<lambda>bs. fifo_put bs 0"
proof unfold_locales
  show "length (contents d) \<le> GLOBALFIFO_SIZE" if "dev_ok d" for d using that by (simp add: length_contents dev_ok_def)
qed (use fifo_take_spec fifo_put_spec in blast)+

section \<open>The system of tasks\<close>

text \<open>Every step of the system is a call from user mode, the continuation of a sleeping task that was
  woken up or has a signal pending, a step of a task at \<open>out2\<close>, or a step of a poll.  A list that has been
  changed by two operations at once may hold anything from then on.\<close>

inductive fifo_step :: "fifo_sys \<Rightarrow> fifo_sys \<Rightarrow> bool" where
  read_call: "\<lbrakk>tasks s t = User; sem s = 1; globalfifo_read t nonblock count left s = Done (r, s')\<rbrakk> \<Longrightarrow> fifo_step s s'"
| read_wake: "\<lbrakk>tasks s t = Read_sleep count; runnable s t \<or> sig; sem s = 1 \<or> sig;
     globalfifo_read_resume t count sig left s = Done (r, s')\<rbrakk> \<Longrightarrow> fifo_step s s'"
| read_lock: "\<lbrakk>tasks s t = Read_out2 ret; w_lock s = None\<rbrakk> \<Longrightarrow> fifo_step s (read_out2_lock t s)"
| read_return: "\<lbrakk>tasks s t = Read_out2 ret; w_lock s = Some t; read_out2 t ret s = (v, s')\<rbrakk> \<Longrightarrow> fifo_step s s'"
| write_call: "\<lbrakk>tasks s t = User; sem s = 1; globalfifo_write t nonblock buf left s = Done (r, s')\<rbrakk> \<Longrightarrow> fifo_step s s'"
| write_wake: "\<lbrakk>tasks s t = Write_sleep buf; runnable s t \<or> sig; sem s = 1 \<or> sig;
     globalfifo_write_resume t buf sig left s = Done (r, s')\<rbrakk> \<Longrightarrow> fifo_step s s'"
| write_return: "\<lbrakk>tasks s t = Write_out2 ret; w_lock s = None; write_out2 t ret s = (v, s')\<rbrakk> \<Longrightarrow> fifo_step s s'"
| ioctl_call: "\<lbrakk>sem s = 1; globalfifo_ioctl cmd s = (ret, s')\<rbrakk> \<Longrightarrow> fifo_step s s'"
| poll_call: "\<lbrakk>tasks s t = User; sem s = 1; globalfifo_poll t True (poll_initwait t s) = (events, s')\<rbrakk> \<Longrightarrow> fifo_step s s'"
| poll_again: "\<lbrakk>tasks s t = Polling; sem s = 1; globalfifo_poll t registering s = (events, s')\<rbrakk> \<Longrightarrow> fifo_step s s'"
| poll_return: "tasks s t = Polling \<Longrightarrow> fifo_step s (poll_freewait t s)"
| r_wait_corrupt: "raced s \<Longrightarrow> fifo_step s (s\<lparr>r_wait := q\<rparr>)"

definition fifo_reachable :: "fifo_sys \<Rightarrow> bool" where
  "fifo_reachable s \<longleftrightarrow> fifo_step\<^sup>*\<^sup>* idle_fifo s"

text \<open>
  The invariant: the semaphore is free between steps, the device is well formed, \<open>w_wait\<close> holds exactly the
  tasks in a write, the lock of \<open>w_wait\<close> is held across steps only by a reader at \<open>out2\<close>; and
  until a race, \<open>r_wait\<close> holds exactly the tasks in a read, the pollers are on both queues, and no reader sleeps
  unwoken while there are bytes to read.
\<close>

fun in_read :: "task \<Rightarrow> bool" where
  "in_read (Read_sleep c) = True"
| "in_read (Read_out2 r) = True"
| "in_read _ = False"

fun in_write :: "task \<Rightarrow> bool" where
  "in_write (Write_sleep b) = True"
| "in_write (Write_out2 r) = True"
| "in_write _ = False"

definition queues_ok :: "fifo_sys \<Rightarrow> bool" where
  "queues_ok s \<longleftrightarrow>
     (\<forall>t. Task t \<in> set (w_wait s) \<longleftrightarrow> in_write (tasks s t)) \<and>
     (\<forall>t. Poller t \<in> set (w_wait s) \<longleftrightarrow> tasks s t = Polling) \<and>
     (\<forall>t. w_lock s = Some t \<longrightarrow> (\<exists>r. tasks s t = Read_out2 r)) \<and>
     (\<not> raced s \<longrightarrow> (\<forall>t. Task t \<in> set (r_wait s) \<longleftrightarrow> in_read (tasks s t)) \<and>
       (\<forall>t. Poller t \<in> set (r_wait s) \<longleftrightarrow> tasks s t = Polling))"

definition readers_woken :: "fifo_sys \<Rightarrow> bool" where
  "readers_woken s \<longleftrightarrow> \<not> raced s \<longrightarrow> (\<forall>t c. tasks s t = Read_sleep c \<and> current_len (fifo s) \<noteq> 0 \<longrightarrow> runnable s t)"

definition sys_ok :: "fifo_sys \<Rightarrow> bool" where
  "sys_ok s \<longleftrightarrow> sem s = 1 \<and> dev_ok (fifo s) \<and> queues_ok s \<and> readers_woken s"

lemmas sys_defs = sys_ok_def queues_ok_def readers_woken_def

lemmas service_defs = down_def up_def to_out2_def wake_up_interruptible_def r_wait_op_def poll_wait_r_def poll_wait_w_def
  poll_initwait_def poll_freewait_def read_out2_lock_def read_out2_def write_out2_def

text \<open>The device part of a handler never faults and keeps the device well formed, whatever the user copies do.\<close>

lemma fifo_take_cases:
  assumes "dev_ok dv"
  shows "fifo_take count left dv = fifo_take count 0 dv \<or> (\<exists>bs. fifo_take count left dv = Done ((- EFAULT, bs), dv))"
proof -
  define n where "n = unat (if ucast (current_len dv) < count then ucast (current_len dv) else count)"
  have "n \<le> unat (current_len dv)" by (auto simp: n_def word_less_nat_alt unat_ucast_len not_less)
  then have "n \<le> 10" using assms by (simp add: dev_ok_def)
  then show ?thesis
    unfolding fifo_take_def Let_def n_def [symmetric] by (cases "min n left = 0") simp_all
qed

lemma fifo_take_ok:
  assumes "dev_ok dv"
  shows "\<exists>ret bs dv'. fifo_take count left dv = Done ((ret, bs), dv') \<and> dev_ok dv' \<and>
    (current_len dv' \<noteq> 0 \<longrightarrow> current_len dv \<noteq> 0)"
proof -
  obtain k dv' where dv': "fifo_take count 0 dv = Done ((int k, take k (contents dv)), dv')" "dev_ok dv'"
    "contents dv' = drop k (contents dv)"
    using fifo_take_spec [OF assms refl] by blast
  then have "unat (current_len dv') \<le> unat (current_len dv)"
    using length_contents [OF assms] length_contents [OF dv'(2)] by simp
  then have "current_len dv' \<noteq> 0 \<longrightarrow> current_len dv \<noteq> 0" by (auto simp: unat_eq_0 [symmetric] simp del: unat_eq_0)
  then show ?thesis using fifo_take_cases [OF assms, of count left] dv' assms by auto
qed

lemma fifo_put_cases:
  assumes "dev_ok dv"
  shows "fifo_put buf left dv = fifo_put buf 0 dv \<or>
    (\<exists>dv'. fifo_put buf left dv = Done (- EFAULT, dv') \<and> dev_ok dv' \<and> current_len dv' = current_len dv \<and> contents dv' = contents dv)"
proof -
  let ?c = "unat (current_len dv)"
  have len: "length (mem dv) = 10" "?c \<le> 10" using assms by (simp_all add: dev_ok_def)
  define n where "n = (if unat (10 - current_len dv) < length buf then unat (10 - current_len dv) else length buf)"
  have n: "?c + n \<le> 10" "n \<le> length buf" using len by (auto simp: n_def unat_sub_if')
  show ?thesis
  proof (cases "min n left = 0")
    case True
    then have "n = 0 \<or> left = 0" by (simp add: min_def split: if_splits)
    then show ?thesis by (auto simp: fifo_put_def Let_def simp flip: n_def)
  next
    case False
    then show ?thesis using n len
      by (simp add: fifo_put_def Let_def dev_ok_def contents_def flip: n_def)
  qed
qed

lemma fifo_put_ok:
  assumes "dev_ok dv"
  shows "\<exists>ret dv'. fifo_put buf left dv = Done (ret, dv') \<and> dev_ok dv' \<and> (ret < 0 \<longrightarrow> current_len dv' = current_len dv)"
  using fifo_put_cases [OF assms, of buf left] fifo_put_spec [OF assms refl, of buf] by fastforce

text \<open>A tail of a handler is entered with the semaphore taken and the entry of the task on its queue.\<close>

lemma read_tail_ok:
  assumes "sem s = 0" "dev_ok (fifo s)" "queues_ok (to_out2 t (Read_out2 0) s)" "readers_woken (to_out2 t (Read_out2 0) s)"
  shows "\<exists>r s'. read_tail t count left s = Done (r, s') \<and> sys_ok s'"
proof -
  obtain ret bs dv' where dv': "fifo_take count left (fifo s) = Done ((ret, bs), dv')" "dev_ok dv'"
    "current_len dv' \<noteq> 0 \<longrightarrow> current_len (fifo s) \<noteq> 0"
    using fifo_take_ok [OF assms(2)] by blast
  then show ?thesis
    using assms by (auto simp: read_tail_def Let_def sys_defs service_defs split: if_splits)
qed

lemma write_tail_ok:
  assumes "sem s = 0" "dev_ok (fifo s)" "queues_ok (to_out2 t (Write_out2 0) s)" "readers_woken (to_out2 t (Write_out2 0) s)"
  shows "\<exists>r s'. write_tail t buf left s = Done (r, s') \<and> sys_ok s'"
proof -
  obtain ret dv' where dv': "fifo_put buf left (fifo s) = Done (ret, dv')" "dev_ok dv'"
    "ret < 0 \<longrightarrow> current_len dv' = current_len (fifo s)"
    using fifo_put_ok [OF assms(2)] by blast
  have linked: "Task u \<in> set (r_wait s)" if "tasks s u = Read_sleep c" "u \<noteq> t" "\<not> raced s" for u c
    using assms(3) that by (simp add: queues_ok_def to_out2_def)
  show ?thesis
    using assms dv' linked by (auto simp: write_tail_def Let_def sys_defs service_defs split: if_splits)
qed

lemma read_ok:
  assumes "sys_ok s" "tasks s t = User"
  shows "\<exists>r s'. globalfifo_read t nonblock count left s = Done (r, s') \<and> sys_ok s'"
proof (cases "current_len (fifo s) = 0")
  case True
  then show ?thesis using assms
    by (auto simp: globalfifo_read_def Let_def sys_defs service_defs)
next
  case False
  then show ?thesis using assms
    by (simp add: globalfifo_read_def Let_def down_def r_wait_op_def)
      (rule read_tail_ok; auto simp: sys_defs to_out2_def)
qed

lemma read_resume_ok:
  assumes "sys_ok s" "tasks s t = Read_sleep c"
  shows "\<exists>r s'. globalfifo_read_resume t c sig left s = Done (r, s') \<and> sys_ok s'"
proof (cases sig)
  case True
  then show ?thesis using assms
    by (auto simp: globalfifo_read_resume_def sys_defs to_out2_def)
next
  case False
  then show ?thesis using assms
    by (simp add: globalfifo_read_resume_def down_def)
      (rule read_tail_ok; auto simp: sys_defs to_out2_def)
qed

lemma write_ok:
  assumes "sys_ok s" "tasks s t = User"
  shows "\<exists>r s'. globalfifo_write t nonblock buf left s = Done (r, s') \<and> sys_ok s'"
proof (cases "current_len (fifo s) = 10")
  case True
  then show ?thesis using assms
    by (auto simp: globalfifo_write_def Let_def sys_defs service_defs)
next
  case False
  then show ?thesis using assms
    by (simp add: globalfifo_write_def Let_def down_def)
      (rule write_tail_ok; auto simp: sys_defs to_out2_def)
qed

lemma write_resume_ok:
  assumes "sys_ok s" "tasks s t = Write_sleep buf"
  shows "\<exists>r s'. globalfifo_write_resume t buf sig left s = Done (r, s') \<and> sys_ok s'"
proof (cases sig)
  case True
  then show ?thesis using assms
    by (auto simp: globalfifo_write_resume_def sys_defs to_out2_def)
next
  case False
  then show ?thesis using assms
    by (simp add: globalfifo_write_resume_def down_def)
      (rule write_tail_ok; auto simp: sys_defs to_out2_def)
qed

lemma ioctl_ok: "sys_ok s \<Longrightarrow> sys_ok (snd (globalfifo_ioctl cmd s))"
  by (auto simp: globalfifo_ioctl_def Let_def down_def up_def sys_defs dev_ok_def)

text \<open>The state after a poll: the entries of the poll table on the queues, and a race if a reader was unlinking its entry.\<close>

lemma poll_state:
  "sem s = 1 \<Longrightarrow> snd (globalfifo_poll t registering s) =
     (if registering then s\<lparr>r_wait := Poller t # r_wait s, w_wait := Poller t # w_wait s, raced := (raced s \<or> w_lock s \<noteq> None)\<rparr> else s)"
  by (simp add: globalfifo_poll_def Let_def service_defs)

lemma poll_call_ok: "sys_ok s \<Longrightarrow> tasks s t = User \<Longrightarrow> sys_ok (snd (globalfifo_poll t True (poll_initwait t s)))"
  by (subst poll_state) (auto simp: sys_defs poll_initwait_def)

lemma poll_again_ok: "sys_ok s \<Longrightarrow> tasks s t = Polling \<Longrightarrow> sys_ok (snd (globalfifo_poll t registering s))"
  by (subst poll_state) (auto simp: sys_defs)

lemma poll_freewait_ok: "sys_ok s \<Longrightarrow> tasks s t = Polling \<Longrightarrow> sys_ok (poll_freewait t s)"
  by (auto simp: sys_defs poll_freewait_def r_wait_op_def)

lemma read_out2_lock_ok: "sys_ok s \<Longrightarrow> tasks s t = Read_out2 ret \<Longrightarrow> sys_ok (read_out2_lock t s)"
  by (auto simp: sys_defs read_out2_lock_def)

lemma read_out2_ok: "sys_ok s \<Longrightarrow> tasks s t = Read_out2 ret \<Longrightarrow> sys_ok (snd (read_out2 t ret s))"
  by (auto simp: sys_defs read_out2_def)

lemma write_out2_ok: "sys_ok s \<Longrightarrow> tasks s t = Write_out2 ret \<Longrightarrow> sys_ok (snd (write_out2 t ret s))"
  by (auto simp: sys_defs write_out2_def)

lemma r_wait_corrupt_ok: "sys_ok s \<Longrightarrow> raced s \<Longrightarrow> sys_ok (s\<lparr>r_wait := q\<rparr>)"
  by (simp add: sys_defs)

lemma fifo_step_ok: "fifo_step s s' \<Longrightarrow> sys_ok s \<Longrightarrow> sys_ok s'"
proof (induction rule: fifo_step.induct)
  case (read_call s t nonblock count left r s')
  then show ?case using read_ok [OF read_call.prems read_call.hyps(1), of nonblock count left] by simp
next
  case (read_wake s t count sig left r s')
  then show ?case using read_resume_ok [OF read_wake.prems read_wake.hyps(1), of sig left] by simp
next
  case (write_call s t nonblock buf left r s')
  then show ?case using write_ok [OF write_call.prems write_call.hyps(1), of nonblock buf left] by simp
next
  case (write_wake s t buf sig left r s')
  then show ?case using write_resume_ok [OF write_wake.prems write_wake.hyps(1), of sig left] by simp
qed (metis ioctl_ok poll_call_ok poll_again_ok poll_freewait_ok read_out2_lock_ok read_out2_ok write_out2_ok r_wait_corrupt_ok snd_conv)+

lemma idle_fifo_ok: "sys_ok idle_fifo"
  by (simp add: sys_defs idle_fifo_def dev_ok_def)

lemma reachable_ok: "fifo_reachable s \<Longrightarrow> sys_ok s"
  unfolding fifo_reachable_def by (induction rule: rtranclp_induct) (auto intro: fifo_step_ok idle_fifo_ok)

text \<open>A race needs a reader that is unlinking its entry.\<close>

lemmas handler_defs = globalfifo_read_def globalfifo_read_resume_def globalfifo_write_def globalfifo_write_resume_def
  globalfifo_ioctl_def globalfifo_poll_def




section \<open>The bytes that go through the device\<close>

text \<open>What a handler took from the device or put into it, read off its reply.  A read that fails to copy leaves the device
  as it is, a write that fails to copy leaves its length.\<close>

fun delivered :: "reply \<Rightarrow> bytes" where
  "delivered (Returns ret bs) = (if ret < 0 then [] else bs)"
| "delivered Sleeps = []"

fun accepted :: "bytes \<Rightarrow> reply \<Rightarrow> bytes" where
  "accepted buf (Returns ret bs) = take (nat ret) buf"
| "accepted buf Sleeps = []"

text \<open>A history of the system: all bytes accepted so far, all bytes that have left, and the state.\<close>

inductive fifo_history :: "bytes \<Rightarrow> bytes \<Rightarrow> fifo_sys \<Rightarrow> bool" where
  start: "fifo_history [] [] idle_fifo"
| read_called: "\<lbrakk>fifo_history sent out s; tasks s t = User; sem s = 1;
     globalfifo_read t nonblock count left s = Done (r, s')\<rbrakk> \<Longrightarrow> fifo_history sent (out @ delivered r) s'"
| read_woken: "\<lbrakk>fifo_history sent out s; tasks s t = Read_sleep count; runnable s t \<or> sig; sem s = 1 \<or> sig;
     globalfifo_read_resume t count sig left s = Done (r, s')\<rbrakk> \<Longrightarrow> fifo_history sent (out @ delivered r) s'"
| write_called: "\<lbrakk>fifo_history sent out s; tasks s t = User; sem s = 1;
     globalfifo_write t nonblock buf left s = Done (r, s')\<rbrakk> \<Longrightarrow> fifo_history (sent @ accepted buf r) out s'"
| write_woken: "\<lbrakk>fifo_history sent out s; tasks s t = Write_sleep buf; runnable s t \<or> sig; sem s = 1 \<or> sig;
     globalfifo_write_resume t buf sig left s = Done (r, s')\<rbrakk> \<Longrightarrow> fifo_history (sent @ accepted buf r) out s'"
| out2_step: "\<lbrakk>fifo_history sent out s; tasks s t = Read_out2 ret; w_lock s = None\<rbrakk> \<Longrightarrow> fifo_history sent out (read_out2_lock t s)"
| read_returned: "\<lbrakk>fifo_history sent out s; tasks s t = Read_out2 ret; w_lock s = Some t; read_out2 t ret s = (v, s')\<rbrakk> \<Longrightarrow>
     fifo_history sent out s'"
| write_returned: "\<lbrakk>fifo_history sent out s; tasks s t = Write_out2 ret; w_lock s = None; write_out2 t ret s = (v, s')\<rbrakk> \<Longrightarrow>
     fifo_history sent out s'"
| ioctl_called: "\<lbrakk>fifo_history sent out s; sem s = 1; globalfifo_ioctl cmd s = (ret, s')\<rbrakk> \<Longrightarrow>
     fifo_history sent (out @ (if cmd = FIFO_CLEAR then contents (fifo s) else [])) s'"
| poll_called: "\<lbrakk>fifo_history sent out s; tasks s t = User; sem s = 1; globalfifo_poll t True (poll_initwait t s) = (events, s')\<rbrakk> \<Longrightarrow>
     fifo_history sent out s'"
| poll_repeated: "\<lbrakk>fifo_history sent out s; tasks s t = Polling; sem s = 1; globalfifo_poll t registering s = (events, s')\<rbrakk> \<Longrightarrow>
     fifo_history sent out s'"
| poll_returned: "\<lbrakk>fifo_history sent out s; tasks s t = Polling\<rbrakk> \<Longrightarrow> fifo_history sent out (poll_freewait t s)"
| r_wait_corrupted: "\<lbrakk>fifo_history sent out s; raced s\<rbrakk> \<Longrightarrow> fifo_history sent out (s\<lparr>r_wait := q\<rparr>)"

lemma fifo_frames [simp]:
  "fifo (to_out2 t x s) = fifo s" "fifo (up s) = fifo s" "fifo (down s) = fifo s" "fifo (wake_up_interruptible q s) = fifo s"
  "fifo (r_wait_op s) = fifo s" "fifo (read_out2_lock t s) = fifo s" "fifo (snd (read_out2 t ret s)) = fifo s"
  "fifo (snd (write_out2 t ret s)) = fifo s" "fifo (poll_initwait t s) = fifo s" "fifo (poll_freewait t s) = fifo s"
  "fifo (snd (globalfifo_poll t registering s)) = fifo s"
  by (simp_all add: globalfifo_poll_def Let_def service_defs)

lemma take_bytes:
  assumes "dev_ok dv" "fifo_take count left dv = Done ((ret, bs), dv')"
  shows "contents dv = delivered (Returns ret bs) @ contents dv'"
proof -
  obtain k dv2 where "fifo_take count 0 dv = Done ((int k, take k (contents dv)), dv2)" "contents dv2 = drop k (contents dv)"
    using gfifo.tk_spec [OF assms(1) refl] by blast
  then show ?thesis using fifo_take_cases [OF assms(1), of count left] assms(2) by auto
qed

lemma put_bytes:
  assumes "dev_ok dv" "fifo_put buf left dv = Done (ret, dv')"
  shows "contents dv' = contents dv @ accepted buf (Returns ret bs)"
  using fifo_put_cases [OF assms(1), of buf left] gfifo.pt_spec [OF assms(1) refl, of buf] assms(2) by auto

lemma read_tail_bytes:
  assumes "dev_ok (fifo s)" "read_tail t count left s = Done (r, s')"
  shows "contents (fifo s) = delivered r @ contents (fifo s')"
  using assms take_bytes [OF assms(1)] by (auto simp: read_tail_def Let_def outcome_simps)

lemma write_tail_bytes:
  assumes "dev_ok (fifo s)" "write_tail t buf left s = Done (r, s')"
  shows "contents (fifo s') = contents (fifo s) @ accepted buf r"
  using assms put_bytes [OF assms(1)] by (auto simp: write_tail_def Let_def outcome_simps)

lemma ioctl_bytes: "globalfifo_ioctl cmd s = (ret, s') \<Longrightarrow> contents (fifo s') = (if cmd = FIFO_CLEAR then [] else contents (fifo s))"
  by (auto simp: globalfifo_ioctl_def Let_def contents_def split: if_splits)

lemma handler_bytes:
  assumes "dev_ok (fifo s)"
  shows "globalfifo_read t nonblock count left s = Done (r, s') \<Longrightarrow> contents (fifo s) = delivered r @ contents (fifo s')"
    and "globalfifo_read_resume t count sig left s = Done (r, s') \<Longrightarrow> contents (fifo s) = delivered r @ contents (fifo s')"
    and "globalfifo_write t nonblock buf left s = Done (r, s') \<Longrightarrow> contents (fifo s') = contents (fifo s) @ accepted buf r"
    and "globalfifo_write_resume t buf sig left s = Done (r, s') \<Longrightarrow> contents (fifo s') = contents (fifo s) @ accepted buf r"
    and "globalfifo_ioctl cmd s = (ret, s') \<Longrightarrow>
      contents (fifo s) = (if cmd = FIFO_CLEAR then contents (fifo s) else []) @ contents (fifo s')"
  using assms
  by (auto simp: handler_defs Let_def ioctl_bytes split: if_splits dest!: read_tail_bytes [rotated] write_tail_bytes [rotated])

lemma history_reachable: "fifo_history sent out s \<Longrightarrow> fifo_reachable s"
  unfolding fifo_reachable_def
  by (induction rule: fifo_history.induct) (blast intro: fifo_step.intros rtranclp.rtrancl_into_rtrancl)+

lemma history_dev: "fifo_history sent out s \<Longrightarrow> dev_ok (fifo s)"
  using reachable_ok [OF history_reachable] by (simp add: sys_ok_def)

lemma reachable_history: "fifo_reachable s \<Longrightarrow> \<exists>sent out. fifo_history sent out s"
  unfolding fifo_reachable_def
proof (induction rule: rtranclp_induct)
  case base
  then show ?case using start by blast
next
  case (step s s')
  from step.hyps(2) step.IH show ?case
    by cases (blast intro: fifo_history.intros)+
qed

section \<open>Properties\<close>

lemma fifo_order:
  assumes "dev_ok dv"
  shows "\<exists>sent got dv'. run_ops (\<lambda>n. fifo_take n 0) (\<lambda>bs. fifo_put bs 0) ops dv = Done (sent, got, dv') \<and>
    dev_ok dv' \<and> contents dv @ sent = got @ contents dv'"
  by (rule gfifo.run_ops_fifo [OF assms])

text \<open>C9: The device is a first-in first-out queue for all its tasks together.  In every history of calls, sleeps,
  wake-ups, signals, failed user copies, clears, returns and polls by any number of tasks, the bytes that writes accepted are, in their
  order, the bytes that reads delivered or clears dropped, followed by the bytes in the device; the overlapping \<open>memcpy\<close>, done from the
  first byte on, does not disturb the order.  Every reachable state has such a history.\<close>

theorem fifo_system_order:
  assumes "fifo_reachable s"
  shows "(\<exists>sent out. fifo_history sent out s) \<and> (\<forall>sent out. fifo_history sent out s \<longrightarrow> sent = out @ contents (fifo s))"
proof -
  have "sent = out @ contents (fifo s)" if "fifo_history sent out s" for sent out
    using that
  proof (induction rule: fifo_history.induct)
    case start
    show ?case by (simp add: idle_fifo_def contents_def)
  next
    case (out2_step sent out s t ret)
    then show ?case by simp
  next
    case (read_returned sent out s t ret v s')
    then show ?case using fifo_frames(7) [of t ret s] by simp
  next
    case (write_returned sent out s t ret v s')
    then show ?case using fifo_frames(8) [of t ret s] by simp
  next
    case (poll_called sent out s t events s')
    then show ?case using fifo_frames(11) [of t True "poll_initwait t s"] by simp
  next
    case (poll_repeated sent out s t registering events s')
    then show ?case using fifo_frames(11) [of t registering s] by simp
  next
    case (poll_returned sent out s t)
    then show ?case by simp
  next
    case (r_wait_corrupted sent out s q)
    then show ?case by simp
  qed (metis append.assoc handler_bytes history_dev)+
  then show ?thesis using reachable_history [OF assms] by blast
qed

lemma idle_reachable: "fifo_reachable idle_fifo"
  by (simp add: fifo_reachable_def)

lemma first_write:
  "\<exists>s. globalfifo_write 1 False [7, 8] 0 idle_fifo = Done (Returns 2 [], s) \<and> current_len (fifo s) = 2"
  by (simp add: globalfifo_write_def write_tail_def fifo_put_def idle_fifo_def service_defs Let_def)

theorem fifo_system_order_witness: "\<exists>s. fifo_reachable s \<and> fifo_history [7, 8] [] s \<and> [7, 8] = [] @ contents (fifo s)"
proof -
  obtain s where s: "globalfifo_write 1 False [7, 8] 0 idle_fifo = Done (Returns 2 [], s)" using first_write by blast
  have "tasks idle_fifo 1 = User" "sem idle_fifo = 1" by (simp_all add: idle_fifo_def)
  from write_called [OF start this s] have h: "fifo_history [7, 8] [] s" by simp
  then show ?thesis using fifo_system_order [OF history_reachable [OF h]] history_reachable [OF h] by blast
qed

lemma fifo_take_bytes:
  assumes "dev_ok dv"
  shows "\<exists>dv'. fifo_take count 0 dv =
    Done ((int (length (take (unat count) (contents dv))), take (unat count) (contents dv)), dv')"
proof -
  define n where "n = min (unat count) (length (contents dv))"
  have "take n (contents dv) = take (unat count) (contents dv)" "n = length (take (unat count) (contents dv))"
    by (simp_all add: n_def min_def)
  then show ?thesis using gfifo.tk_spec [OF assms n_def] by metis
qed

text \<open>A reader at \<open>out2\<close> leaves in two steps once the lock is free.\<close>

lemma reader_returns:
  assumes "tasks s t = Read_out2 ret" "w_lock s = None"
  shows "fifo_step s (read_out2_lock t s) \<and>
    (\<exists>s'. read_out2 t ret (read_out2_lock t s) = (ret, s') \<and> fifo_step (read_out2_lock t s) s' \<and> tasks s' t = User \<and> Task t \<notin> set (r_wait s'))"
proof -
  let ?s = "read_out2_lock t s"
  obtain s' where s': "read_out2 t ret ?s = (ret, s')" "tasks s' t = User" "Task t \<notin> set (r_wait s')" by (simp add: read_out2_def)
  have "fifo_step ?s s'" by (rule read_return [OF _ _ s'(1)]) (simp_all add: read_out2_lock_def assms)
  then show ?thesis using read_lock [OF assms] s' by blast
qed

text \<open>C10: Writes reach sleeping readers.  In every reachable state with sleeping readers, no race so far and no
  reader in the middle of its removal, any non-empty write by another task into a device that is not full, copied completely, is
  accepted with a positive count and leaves every sleeping reader woken.  Whichever of them (with a non-zero count) continues
  next gets at least one byte, the oldest bytes of the device, leaves its queue and returns their number.  Nothing is said of the
  readers that continue after it.\<close>

theorem write_completes_read:
  assumes "fifo_reachable s" "\<not> raced s" "w_lock s = None" "tasks s u = User" "buf \<noteq> []"
    and "current_len (fifo s) \<noteq> of_nat GLOBALFIFO_SIZE"
  shows "\<exists>n s1. globalfifo_write u nonblock buf 0 s = Done (Returns (int n) [], s1) \<and> 0 < n \<and> fifo_step s s1 \<and>
    (\<forall>t count. tasks s t = Read_sleep count \<longrightarrow> tasks s1 t = Read_sleep count \<and> runnable s1 t) \<and>
    (\<forall>t count. tasks s t = Read_sleep count \<and> count \<noteq> 0 \<longrightarrow>
      (\<exists>bs s2 s3. globalfifo_read_resume t count False 0 s1 = Done (Returns (int (length bs)) bs, s2) \<and> fifo_step s1 s2 \<and>
        bs \<noteq> [] \<and> bs = take (unat count) (contents (fifo s) @ take n buf) \<and>
        fifo_step s2 (read_out2_lock t s2) \<and> read_out2 t (int (length bs)) (read_out2_lock t s2) = (int (length bs), s3) \<and>
        fifo_step (read_out2_lock t s2) s3 \<and> tasks s3 t = User \<and> Task t \<notin> set (r_wait s3)))"
proof -
  have ok: "sys_ok s" by (rule reachable_ok [OF assms(1)])
  then have dv: "dev_ok (fifo s)" "sem s = 1" by (simp_all add: sys_ok_def)
  define n where "n = min (length buf) (10 - length (contents (fifo s)))"
  have "unat (current_len (fifo s)) \<noteq> 10" using assms(6) of_nat_len [of 10] by (metis order_refl unsigned_word_eqI)
  then have n: "0 < n" using dv(1) assms(5) by (auto simp: n_def length_contents dev_ok_def)
  obtain dv1 where dv1: "fifo_put buf 0 (fifo s) = Done (int n, dv1)" "dev_ok dv1" "contents dv1 = contents (fifo s) @ take n buf"
    using gfifo.pt_spec [OF dv(1) n_def] by blast
  obtain s1 where s1: "globalfifo_write u nonblock buf 0 s = Done (Returns (int n) [], s1)" "fifo s1 = dv1" "sem s1 = 1"
      "w_lock s1 = None" "\<forall>t. t \<noteq> u \<longrightarrow> tasks s1 t = tasks s t \<and> (Task t \<in> set (r_wait s) \<longrightarrow> runnable s1 t)"
    using dv1(1) assms(3,6) dv(2) by (auto simp: globalfifo_write_def write_tail_def Let_def service_defs)
  have woken: "tasks s1 t = Read_sleep count \<and> runnable s1 t" if "tasks s t = Read_sleep count" for t count
    using that s1(5) assms(2,4) ok by (cases "t = u") (auto simp: sys_ok_def queues_ok_def)
  have read: "\<exists>bs s2 s3. globalfifo_read_resume t count False 0 s1 = Done (Returns (int (length bs)) bs, s2) \<and> fifo_step s1 s2 \<and>
      bs \<noteq> [] \<and> bs = take (unat count) (contents (fifo s) @ take n buf) \<and>
      fifo_step s2 (read_out2_lock t s2) \<and> read_out2 t (int (length bs)) (read_out2_lock t s2) = (int (length bs), s3) \<and>
      fifo_step (read_out2_lock t s2) s3 \<and> tasks s3 t = User \<and> Task t \<notin> set (r_wait s3)"
    if t: "tasks s t = Read_sleep count" "count \<noteq> 0" for t count
  proof -
    define bs where "bs = take (unat count) (contents dv1)"
    have "0 < unat count" using t(2) by (simp add: unat_gt_0)
    then have bs: "bs \<noteq> []" using dv1(3) n assms(5) by (simp add: bs_def)
    obtain s2 where s2: "globalfifo_read_resume t count False 0 s1 = Done (Returns (int (length bs)) bs, s2)"
        "tasks s2 t = Read_out2 (int (length bs))" "w_lock s2 = None"
      using fifo_take_bytes [OF dv1(2), of count] s1(2,4)
      by (fastforce simp: globalfifo_read_resume_def read_tail_def Let_def service_defs bs_def)
    have "fifo_step s1 s2" by (rule read_wake [OF _ _ _ s2(1)]) (simp_all add: woken [OF t(1)] s1(3))
    with s2 bs show ?thesis using reader_returns [OF s2(2,3)] dv1(3) by (auto simp: bs_def)
  qed
  have "fifo_step s s1" by (rule write_call [OF assms(4) dv(2) s1(1)])
  then show ?thesis using s1(1) n woken read by blast
qed


text \<open>The first state of the system is the one an open file sees after a successful initialisation.\<close>

lemma init_open_idle:
  assumes "globalfifo_init register_ret alloc_ret alloc_major kmalloc_ok cdev_err md = (0, md')"
  shows "globalfifo_open md' = (0, Some idle_fifo) \<and> region md'"
  using assms
  by (auto simp: globalfifo_init_def globalfifo_open_def globalfifo_setup_cdev_def idle_fifo_def Let_def split: if_splits)



text \<open>C35: a woken reader may return 0.  \<open>globalfifo_read\<close> tests the length only once before it sleeps: if another
  task has emptied the device by the time the reader runs, it returns 0, which its caller takes for the end
  of the file, instead of waiting again.\<close>

theorem reader_spurious_eof:
  assumes "fifo_reachable s" "tasks s t = Read_sleep c" "runnable s t" "current_len (fifo s) = 0"
  shows "\<exists>s'. globalfifo_read_resume t c False left s = Done (Returns 0 [], s') \<and> fifo_step s s' \<and> tasks s' t = Read_out2 0"
proof -
  have "unat (if ucast (current_len (fifo s)) < c then ucast (current_len (fifo s)) else c) = 0"
    using assms(4) by (simp add: word_less_nat_alt)
  then have "\<exists>dv'. fifo_take c left (fifo s) = Done ((0, []), dv')"
    by (simp only: fifo_take_def Let_def) (simp add: assms(4))
  then obtain s' where r: "globalfifo_read_resume t c False left s = Done (Returns 0 [], s')" "tasks s' t = Read_out2 0"
    by (auto simp: globalfifo_read_resume_def read_tail_def down_def Let_def to_out2_def)
  moreover have "sem s = 1" using reachable_ok [OF assms(1)] by (simp add: sys_ok_def)
  then have "fifo_step s s'" by (intro read_wake [OF assms(2) _ _ r(1)]) (simp_all add: assms(3))
  ultimately show ?thesis by blast
qed

definition sleeping_reader :: fifo_sys where
  "sleeping_reader = idle_fifo\<lparr>r_wait := [Task 0], tasks := (tasks idle_fifo)(0 := Read_sleep 5), runnable := (runnable idle_fifo)(0 := False)\<rparr>"

lemma sleeping_reader_call: "globalfifo_read 0 False 5 0 idle_fifo = Done (Sleeps, sleeping_reader)"
  by (simp add: globalfifo_read_def sleeping_reader_def idle_fifo_def down_def up_def r_wait_op_def Let_def)

lemma sleeping_reader_reachable: "fifo_reachable sleeping_reader"
  unfolding fifo_reachable_def
  by (rule r_into_rtranclp, rule read_call [OF _ _ sleeping_reader_call]) (simp_all add: idle_fifo_def)

theorem write_completes_read_witness:
  "\<exists>n s1 bs s2. globalfifo_write 1 False [7, 8] 0 sleeping_reader = Done (Returns (int n) [], s1) \<and> runnable s1 0 \<and>
     globalfifo_read_resume 0 5 False 0 s1 = Done (Returns (int (length bs)) bs, s2) \<and> bs \<noteq> []"
proof -
  have s: "\<not> raced sleeping_reader" "w_lock sleeping_reader = None" "tasks sleeping_reader 1 = User"
      "current_len (fifo sleeping_reader) \<noteq> of_nat 10" "tasks sleeping_reader 0 = Read_sleep 5"
    by (simp_all add: sleeping_reader_def idle_fifo_def)
  show ?thesis
    using write_completes_read [OF sleeping_reader_reachable s(1-3) _ s(4), of "[7, 8]" False] s(5) by fastforce
qed

text \<open>A write of no bytes wakes the reader.\<close>

lemma woken_reader:
  "\<exists>s. fifo_reachable s \<and> tasks s 0 = Read_sleep 5 \<and> runnable s 0 \<and> current_len (fifo s) = 0"
proof -
  have w: "\<exists>s. globalfifo_write 1 False [] 0 sleeping_reader = Done (Returns 0 [], s) \<and>
      tasks s 0 = Read_sleep 5 \<and> runnable s 0 \<and> current_len (fifo s) = 0"
    by (simp add: globalfifo_write_def write_tail_def fifo_put_def sleeping_reader_def idle_fifo_def service_defs Let_def)
  then obtain s where "globalfifo_write 1 False [] 0 sleeping_reader = Done (Returns 0 [], s)"
    and s: "tasks s 0 = Read_sleep 5" "runnable s 0" "current_len (fifo s) = 0" by blast
  then have "fifo_step sleeping_reader s"
    by (intro write_call [where t = 1]) (simp_all add: sleeping_reader_def idle_fifo_def)
  then have "fifo_reachable s"
    using sleeping_reader_reachable unfolding fifo_reachable_def by (rule rtranclp.rtrancl_into_rtrancl [rotated])
  then show ?thesis using s by blast
qed

theorem reader_spurious_eof_witness:
  "\<exists>s s'. fifo_reachable s \<and> runnable s 0 \<and> globalfifo_read_resume 0 5 False 0 s = Done (Returns 0 [], s')"
  using woken_reader reader_spurious_eof by blast

text \<open>Clearing the device strands its writers.  \<open>FIFO_CLEAR\<close> empties the device but wakes nobody: a writer that
  sleeps because the device was full stays asleep on an empty device, and every reader that comes after falls
  asleep beside it without waking it.\<close>

theorem clear_strands_writers:
  assumes "tasks s t = Write_sleep b" "\<not> runnable s t"
  shows "\<exists>s'. globalfifo_ioctl FIFO_CLEAR s = (0, s') \<and> current_len (fifo s') = 0 \<and>
    tasks s' t = Write_sleep b \<and> \<not> runnable s' t \<and>
    (\<forall>u count left. \<exists>s''. globalfifo_read u False count left s' = Done (Sleeps, s'') \<and> (u \<noteq> t \<longrightarrow> \<not> runnable s'' t))"
  using assms by (simp add: globalfifo_ioctl_def globalfifo_read_def down_def up_def r_wait_op_def Let_def)

theorem clear_strands_writers_witness:
  "\<exists>s'. globalfifo_ioctl FIFO_CLEAR (idle_fifo\<lparr>fifo := \<lparr>current_len = 10, mem = replicate 10 7\<rparr>, w_wait := [Task 0],
      tasks := (tasks idle_fifo)(0 := Write_sleep [1]), runnable := (runnable idle_fifo)(0 := False)\<rparr>) = (0, s') \<and>
    current_len (fifo s') = 0 \<and> \<not> runnable s' 0"
  using clear_strands_writers [of "idle_fifo\<lparr>fifo := \<lparr>current_len = 10, mem = replicate 10 7\<rparr>, w_wait := [Task 0],
      tasks := (tasks idle_fifo)(0 := Write_sleep [1]), runnable := (runnable idle_fifo)(0 := False)\<rparr>" 0 "[1]"]
  by auto

text \<open>A completed write or read triggers the pollers on the other queue.\<close>

lemma tail_triggers:
  "write_tail t buf left s = Done (Returns ret bs, s') \<Longrightarrow> 0 \<le> ret \<Longrightarrow> Poller p \<in> set (r_wait s) \<Longrightarrow> triggered s' p"
  "read_tail t count left s = Done (Returns ret bs, s') \<Longrightarrow> 0 \<le> ret \<Longrightarrow> Poller p \<in> set (w_wait s) \<Longrightarrow> triggered s' p"
  by (auto simp: write_tail_def read_tail_def Let_def service_defs outcome_simps)

lemma write_triggers:
  "\<lbrakk>globalfifo_write t nonblock buf left s = Done (Returns ret bs, s'); 0 \<le> ret; Poller p \<in> set (r_wait s)\<rbrakk> \<Longrightarrow> triggered s' p"
  by (auto simp: globalfifo_write_def Let_def down_def split: if_splits dest!: tail_triggers(1))

lemma read_triggers:
  "\<lbrakk>globalfifo_read t nonblock count left s = Done (Returns ret bs, s'); 0 \<le> ret; Poller p \<in> set (w_wait s)\<rbrakk> \<Longrightarrow> triggered s' p"
  by (auto simp: globalfifo_read_def Let_def down_def r_wait_op_def split: if_splits dest!: tail_triggers(2))

text \<open>C34: \<open>poll\<close> tells the truth: in every reachable state its mask has \<open>POLLIN\<close> exactly when a read would not
  block, and \<open>POLLOUT\<close> exactly when a write would not block.  The call registers the poller: it puts exactly one entry on each of the
  two queues (none when the poll table asks for none), which an overlapping removal of a reader makes a race, and changes nothing else.  A
  registered poller is triggered by the next write or read of another task that copies completely.\<close>

theorem poll_mask_correct:
  assumes "fifo_reachable s"
  shows "snd (globalfifo_poll p registering s) =
      (if registering then s\<lparr>r_wait := Poller p # r_wait s, w_wait := Poller p # w_wait s, raced := (raced s \<or> w_lock s \<noteq> None)\<rparr> else s) \<and>
    (fst (globalfifo_poll p registering s) AND POLLIN \<noteq> 0 \<longleftrightarrow> (\<forall>t count left s'. globalfifo_read t False count left s \<noteq> Done (Sleeps, s'))) \<and>
    (fst (globalfifo_poll p registering s) AND POLLOUT \<noteq> 0 \<longleftrightarrow> (\<forall>t buf left s'. globalfifo_write t False buf left s \<noteq> Done (Sleeps, s'))) \<and>
    (\<forall>t nonblock buf left ret bs s'. Poller p \<in> set (r_wait s) \<and> 0 \<le> ret \<and>
       globalfifo_write t nonblock buf left s = Done (Returns ret bs, s') \<longrightarrow> triggered s' p) \<and>
    (\<forall>t nonblock count left ret bs s'. Poller p \<in> set (w_wait s) \<and> 0 \<le> ret \<and>
       globalfifo_read t nonblock count left s = Done (Returns ret bs, s') \<longrightarrow> triggered s' p)"
proof -
  have sem: "sem s = 1" using reachable_ok [OF assms] by (simp add: sys_ok_def)
  have mask: "fst (globalfifo_poll p registering s) AND POLLIN \<noteq> 0 \<longleftrightarrow> current_len (fifo s) \<noteq> 0"
    "fst (globalfifo_poll p registering s) AND POLLOUT \<noteq> 0 \<longleftrightarrow> current_len (fifo s) \<noteq> 10"
    by (simp_all add: globalfifo_poll_def Let_def service_defs)
  have "read_tail t count left s' \<noteq> Done (Sleeps, s'')" "write_tail t buf left s' \<noteq> Done (Sleeps, s'')" for t count left s' s'' buf
    by (auto simp: read_tail_def write_tail_def Let_def outcome_simps)
  then have blocks: "current_len (fifo s) \<noteq> 0 \<longleftrightarrow> (\<forall>t count left s'. globalfifo_read t False count left s \<noteq> Done (Sleeps, s'))"
    "current_len (fifo s) \<noteq> 10 \<longleftrightarrow> (\<forall>t buf left s'. globalfifo_write t False buf left s \<noteq> Done (Sleeps, s'))"
    by (auto simp: globalfifo_read_def globalfifo_write_def Let_def)
  show ?thesis unfolding mask poll_state [OF sem]
    by (intro conjI allI impI refl blocks; elim conjE; erule (2) write_triggers read_triggers)
qed

theorem poll_mask_correct_witness:
  "fst (globalfifo_poll 3 True idle_fifo) AND POLLOUT \<noteq> 0 \<and> fst (globalfifo_poll 3 True idle_fifo) AND POLLIN = 0 \<and>
   r_wait (snd (globalfifo_poll 3 True idle_fifo)) = [Poller 3]"
proof -
  have "globalfifo_write t False buf left idle_fifo \<noteq> Done (Sleeps, s')" for t buf left s'
    by (auto simp: globalfifo_write_def write_tail_def idle_fifo_def down_def Let_def outcome_simps)
  moreover have "r_wait idle_fifo = []" by (simp add: idle_fifo_def)
  ultimately show ?thesis using poll_mask_correct [OF idle_reachable, of 3 True] sleeping_reader_call by fastforce
qed

end
