(* ===== verification/Mm_Debug.thy ===== *)
theory Mm_Debug
  imports Sfs_Prelude
begin

text \<open>
  The module \<open>mm/mm_debug.c\<close>: a file under \<open>/proc\<close> whose writes are kept in a 16-byte buffer and parsed as a process
  number, and whose reads print the buffer.  The kernel's \<open>kstrtoint\<close> is a parameter, a function
  of the memory it is pointed to; how much of it the function looks at is its own affair.  That memory is the buffer followed by
  what lies behind it in the kernel, an argument \<open>beyond\<close> of the operations.  The conversion \<open>%s\<close> reads up to
  the first NUL of the same memory.
\<close>

section \<open>State\<close>

abbreviation (input) INFO_LEN :: nat where "INFO_LEN \<equiv> 16"

record mmproc =
  info :: "bytes option"
  mm_pid :: int
  proc_root :: bool
  proc_entry :: bool

text \<open>The C string that memory begins with; there is none if no byte is NUL.\<close>

fun c_string :: "bytes \<Rightarrow> bytes outcome" where
  "c_string [] = Fault Out_of_bounds"
| "c_string (b # bs) = (if b = 0 then Done [] else bnd (c_string bs) (\<lambda>s. Done (b # s)))"

section \<open>Operations\<close>

definition proc_mm_show :: "bytes \<Rightarrow> mmproc \<Rightarrow> bytes outcome" where
  "proc_mm_show beyond s =
     (case info s of None \<Rightarrow> Fault Null_deref | Some b \<Rightarrow> bnd (c_string (b @ beyond)) (\<lambda>str. Done (str @ [10])))"

text \<open>\<open>left\<close> is the number of bytes \<open>copy_from_user\<close> does not copy; it fills them with zeros.\<close>

definition proc_mm_write :: "(bytes \<Rightarrow> int option) \<Rightarrow> bytes \<Rightarrow> bytes \<Rightarrow> nat \<Rightarrow> mmproc \<Rightarrow> (int \<times> mmproc) outcome" where
  "proc_mm_write kstrtoint beyond buf left s =
     (if INFO_LEN < length buf then Done (- EFAULT, s)
      else case info s of
        None \<Rightarrow> Fault Null_deref
      | Some b \<Rightarrow>
          let left = min (length buf) left;
              b = take (length buf - left) buf @ replicate left 0 @ drop (length buf) b;
              s = s\<lparr>info := Some b\<rparr> in
          if left \<noteq> 0 then Done (- EFAULT, s)
          else let s = (case kstrtoint (b @ beyond) of None \<Rightarrow> s | Some n \<Rightarrow> s\<lparr>mm_pid := n\<rparr>) in
               Done (int (length buf), s))"

text \<open>Whether \<open>proc_mkdir\<close> and \<open>proc_create\<close> succeed are arguments.\<close>

definition mm_create_proc_entry :: "bool \<Rightarrow> bool \<Rightarrow> mmproc \<Rightarrow> int \<times> mmproc" where
  "mm_create_proc_entry mkdir_ok create_ok s =
     (let s = s\<lparr>proc_root := mkdir_ok\<rparr> in
      if \<not> mkdir_ok then (- ENOMEM, s)
      else let s = s\<lparr>proc_entry := create_ok\<rparr> in
           if \<not> create_ok then (- ENOMEM, s\<lparr>proc_entry := False, proc_root := False\<rparr>)
           else (0, s))"

definition mmproc_init :: "bool \<Rightarrow> bool \<Rightarrow> bool \<Rightarrow> mmproc \<Rightarrow> int \<times> mmproc" where
  "mmproc_init kmalloc_ok mkdir_ok create_ok s =
     (if \<not> kmalloc_ok then (- ENOMEM, s\<lparr>info := None\<rparr>)
      else let s = s\<lparr>info := Some (replicate INFO_LEN 0)\<rparr>;
               (_, s) = mm_create_proc_entry mkdir_ok create_ok s
           in (0, s))"

definition mmproc_exit :: "mmproc \<Rightarrow> mmproc" where
  "mmproc_exit s = s\<lparr>info := None, proc_entry := False, proc_root := False\<rparr>"

section \<open>Strings in the buffer\<close>

lemma c_string_cstr: "0 \<notin> set str \<Longrightarrow> c_string (cstr str @ bs) = Done str"
  by (induction str) (simp_all add: cstr_def)

lemma c_string_unterminated: "0 \<notin> set bs \<Longrightarrow> c_string bs = Fault Out_of_bounds"
  by (induction bs) auto

lemma c_string_append: "0 \<notin> set xs \<Longrightarrow> c_string ys = Done str \<Longrightarrow> c_string (xs @ ys) = Done (xs @ str)"
  by (induction xs) auto

lemma c_string_drop: "c_string ys = Done str \<Longrightarrow> n \<le> length str \<Longrightarrow> c_string (drop n ys) = Done (drop n str)"
proof (induction ys arbitrary: str n)
  case Nil
  then show ?case by simp
next
  case (Cons y ys)
  show ?case
  proof (cases n)
    case 0
    then show ?thesis using Cons.prems by simp
  next
    case (Suc k)
    then have "y \<noteq> 0" using Cons.prems by (auto split: if_splits)
    then obtain str' where "c_string ys = Done str'" "str = y # str'"
      using Cons.prems(1) by (auto simp: outcome_simps)
    then show ?thesis using Cons Suc by simp
  qed
qed

lemma c_string_longer: "c_string xs = Done str \<Longrightarrow> c_string (xs @ ys) = Done str"
  by (induction xs arbitrary: str) (auto simp: outcome_simps split: if_splits)

section \<open>Properties\<close>

text \<open>What a write leaves of the previous one.  If the buffer holds a C string of at least the length of the
  new text, the write replaces only the beginning: a read then prints the new text followed by the rest
  of the old one, and that mixture is what \<open>kstrtoint\<close> is given.\<close>

theorem mm_write_keeps_tail:
  assumes "info s = Some b" "c_string b = Done old" "0 \<notin> set buf" "length buf \<le> length old" "length b = INFO_LEN"
  shows "\<exists>s'. proc_mm_write kstrtoint beyond buf 0 s = Done (int (length buf), s') \<and>
    proc_mm_show beyond' s' = Done (buf @ drop (length buf) old @ [10]) \<and>
    mm_pid s' = (case kstrtoint (buf @ drop (length buf) b @ beyond) of None \<Rightarrow> mm_pid s | Some n \<Rightarrow> n)"
proof -
  have le: "length old < length b" using assms(2)
  proof (induction b arbitrary: old)
    case (Cons y ys)
    then show ?case by (auto simp: outcome_simps split: if_splits)
  qed simp
  have "c_string (buf @ drop (length buf) b @ beyond') = Done (buf @ drop (length buf) old)"
    by (rule c_string_append [OF assms(3) c_string_longer [OF c_string_drop [OF assms(2,4)]]])
  then show ?thesis
    using assms(1,4,5) le
    by (simp add: proc_mm_write_def proc_mm_show_def Let_def split: option.split)
qed

theorem mm_write_keeps_tail_witness:
  "\<exists>s'. proc_mm_write (\<lambda>_. None) [] [53] 0 \<lparr>info = Some ([49, 50, 51] @ replicate 13 0), mm_pid = 0, proc_root = True, proc_entry = True\<rparr>
      = Done (1, s') \<and> proc_mm_show [] s' = Done [53, 50, 51, 10]"
proof -
  let ?b = "[49, 50, 51] @ replicate 13 0 :: bytes"
  have "c_string ?b = Done [49, 50, 51]" by code_simp
  then show ?thesis
    using mm_write_keeps_tail [of "\<lparr>info = Some ?b, mm_pid = 0, proc_root = True, proc_entry = True\<rparr>" ?b
        "[49, 50, 51]" "[53]" "\<lambda>_. None" "[]" "[]"] by auto
qed

text \<open>C36: a write of exactly 16 bytes without NUL passes the length check and leaves the buffer without a terminator.  The
  write succeeds, \<open>kstrtoint\<close> is pointed to the text together with the memory behind the buffer, and the next read prints the text
  followed by the bytes behind the buffer, up to the first NUL there; if there is none, it leaves the accessible memory.\<close>

theorem mm_write_unterminated:
  assumes "info s = Some b" "length b = INFO_LEN" "length buf = INFO_LEN" "0 \<notin> set buf"
  shows "\<exists>s'. proc_mm_write kstrtoint beyond buf 0 s = Done (int INFO_LEN, s') \<and> info s' = Some buf \<and>
    mm_pid s' = (case kstrtoint (buf @ beyond) of None \<Rightarrow> mm_pid s | Some n \<Rightarrow> n) \<and>
    (\<forall>xs ys. 0 \<notin> set xs \<longrightarrow> proc_mm_show (xs @ 0 # ys) s' = Done (buf @ xs @ [10])) \<and>
    (\<forall>xs. 0 \<notin> set xs \<longrightarrow> proc_mm_show xs s' = Fault Out_of_bounds)"
proof -
  have "c_string (buf @ xs @ 0 # ys) = Done (buf @ xs)" if "0 \<notin> set xs" for xs ys
    using c_string_append [of "buf @ xs" "0 # ys" "[]"] assms(4) that by simp
  moreover have "c_string (buf @ xs) = Fault Out_of_bounds" if "0 \<notin> set xs" for xs
    using c_string_unterminated [of "buf @ xs"] assms(4) that by simp
  ultimately show ?thesis
    using assms(1-3) by (simp add: proc_mm_write_def proc_mm_show_def Let_def split: option.split)
qed

theorem mm_write_unterminated_witness:
  "\<exists>s'. proc_mm_write (\<lambda>_. None) [] (replicate 16 49) 0
       \<lparr>info = Some (replicate 16 0), mm_pid = 0, proc_root = True, proc_entry = True\<rparr> = Done (16, s') \<and>
     proc_mm_show [77, 78, 0, 5] s' = Done (replicate 16 49 @ [77, 78] @ [10])"
proof -
  let ?s = "\<lparr>info = Some (replicate 16 0), mm_pid = 0, proc_root = True, proc_entry = True\<rparr>"
  obtain s' where "proc_mm_write (\<lambda>_. None) [] (replicate 16 49) 0 ?s = Done (int 16, s')"
    "\<forall>xs ys. 0 \<notin> set xs \<longrightarrow> proc_mm_show (xs @ 0 # ys) s' = Done (replicate 16 49 @ xs @ [10])"
    using mm_write_unterminated [of ?s "replicate 16 0" "replicate 16 49" "\<lambda>_. None" "[]"] by auto
  from this(1) this(2) [rule_format, of "[77, 78]" "[5]"] show ?thesis by (intro exI [of _ s']) simp
qed

end
