(* ===== verification/Mm_Spinlock.thy ===== *)
theory Mm_Spinlock
  imports Main
begin

text \<open>
  The module \<open>mm_spinlock/mm_spinlock.c\<close> as it is configured in the file (\<open>MM_LEAK_DEBUG\<close> defined, the other
  switches off): a file under \<open>/proc\<close> whose write handler runs a loop of allocations to be found by the
  kernel's leak detector.  The state is the number of bytes allocated and not freed, the number of
  calls of \<open>kmalloc\<close> so far, and what the module has registered with the kernel; which calls fail is an argument.
\<close>

section \<open>State and services\<close>

record kheap =
  live_bytes :: nat
  kmallocs :: nat
  work_demo :: bool
  work_demo2 :: bool
  workqueue_demo :: bool
  proc_workqueue :: bool

definition kmalloc :: "(nat \<Rightarrow> bool) \<Rightarrow> nat \<Rightarrow> kheap \<Rightarrow> bool \<times> kheap" where
  "kmalloc fails n h =
     (if fails (kmallocs h) then (False, h\<lparr>kmallocs := Suc (kmallocs h)\<rparr>)
      else (True, h\<lparr>live_bytes := live_bytes h + n, kmallocs := Suc (kmallocs h)\<rparr>))"

definition kfree :: "bool \<Rightarrow> nat \<Rightarrow> kheap \<Rightarrow> kheap" where
  "kfree p n h = (if p then h\<lparr>live_bytes := live_bytes h - n\<rparr> else h)"

section \<open>Operations\<close>

definition leak_iteration :: "(nat \<Rightarrow> bool) \<Rightarrow> kheap \<Rightarrow> kheap" where
  "leak_iteration fails h =
     (let (mm, h) = kmalloc fails (8 * 1024) h in
      if mm then let (mm, h) = kmalloc fails (8 * 1024) h in kfree mm (8 * 1024) h else h)"

text \<open>The \<open>do ... while (i < 1024/8)\<close> loop.\<close>

function leak_loop :: "(nat \<Rightarrow> bool) \<Rightarrow> nat \<Rightarrow> kheap \<Rightarrow> kheap" where
  "leak_loop fails i h =
     (let h = leak_iteration fails h; i = Suc i in if i < 1024 div 8 then leak_loop fails i h else h)"
  by pat_completeness auto
termination
  by (relation "measure (\<lambda>(fails, i, h). 128 - i)") auto

declare leak_loop.simps [simp del]

definition workqueue_proc_store :: "(nat \<Rightarrow> bool) \<Rightarrow> nat \<Rightarrow> kheap \<Rightarrow> nat \<times> kheap" where
  "workqueue_proc_store fails count h = (count, leak_loop fails 0 h)"

text \<open>\<open>workqueue_proc_show\<close> and the work function only log; nothing queues the work items.\<close>

definition workqueue_proc_show :: "kheap \<Rightarrow> int \<times> kheap" where
  "workqueue_proc_show h = (0, h)"

definition work_demo_func :: "kheap \<Rightarrow> kheap" where
  "work_demo_func h = h"

text \<open>Whether \<open>alloc_workqueue\<close> and \<open>proc_create\<close> succeed are arguments.  A name that is taken makes \<open>proc_create\<close> fail, and the entry
  that has it stays.\<close>

definition workqueue_init :: "bool \<Rightarrow> bool \<Rightarrow> kheap \<Rightarrow> int \<times> kheap" where
  "workqueue_init alloc_ok create_ok h =
     (let h = h\<lparr>work_demo := True\<rparr>;
          h = h\<lparr>work_demo2 := True\<rparr>;
          h = h\<lparr>workqueue_demo := alloc_ok\<rparr>;
          h = h\<lparr>proc_workqueue := proc_workqueue h \<or> create_ok\<rparr> in
      (0, h))"

definition workqueue_exit :: "kheap \<Rightarrow> kheap" where
  "workqueue_exit h = h"

section \<open>Loading and unloading\<close>

lemma init_always_succeeds:
  "\<exists>h'. workqueue_init alloc_ok create_ok h = (0, h') \<and> live_bytes h' = live_bytes h \<and> kmallocs h' = kmallocs h"
  by (simp add: workqueue_init_def Let_def)

text \<open>Unloading removes neither the file, whose handlers then lie in memory that the kernel gives back, nor the queue.\<close>

lemma exit_leaves_registrations:
  "proc_workqueue (workqueue_exit (snd (workqueue_init alloc_ok True h)))"
  "workqueue_demo (workqueue_exit (snd (workqueue_init True create_ok h)))"
  by (simp_all add: workqueue_init_def workqueue_exit_def Let_def)

section \<open>The leak\<close>

lemma leak_iteration_live: "live_bytes (leak_iteration fails h) =
    (if fails (kmallocs h) then live_bytes h else live_bytes h + 8192)"
  by (auto simp: leak_iteration_def kmalloc_def kfree_def Let_def)

lemma leak_loop_bound:
  assumes "i < 128"
  shows "live_bytes h + (if \<exists>n. fails n then 0 else 8192 * (128 - i)) \<le> live_bytes (leak_loop fails i h) \<and>
    live_bytes (leak_loop fails i h) \<le> live_bytes h + 8192 * (128 - i)"
  using assms
proof (induction fails i h rule: leak_loop.induct)
  case (1 fails i h)
  let ?h = "leak_iteration fails h"
  show ?case
  proof (cases "Suc i < 128")
    case True
    then have step: "leak_loop fails i h = leak_loop fails (Suc i) ?h"
      by (subst leak_loop.simps) (simp add: Let_def)
    have "128 - i = Suc (128 - Suc i)" using True by simp
    then show ?thesis
      using "1.IH" [OF refl refl] True unfolding step by (auto simp: leak_iteration_live split: if_splits)
  next
    case False
    then have "i = 127" "leak_loop fails i h = ?h"
      using "1.prems" by (simp, subst leak_loop.simps, simp add: Let_def)
    then show ?thesis by (simp add: leak_iteration_live)
  qed
qed

section \<open>Properties\<close>

text \<open>C37: the leak the module is written to produce.  One write to the file returns the length it was given and,
  whichever allocations fail, neither frees anything that was allocated before nor leaks more than 1 MiB; when
  no allocation fails it leaks exactly 128 buffers of 8 KiB, because the loop overwrites its only pointer
  to the first buffer of each round and frees the second.\<close>

theorem store_leaks:
  "fst (workqueue_proc_store fails count h) = count \<and>
   live_bytes h \<le> live_bytes (snd (workqueue_proc_store fails count h)) \<and>
   live_bytes (snd (workqueue_proc_store fails count h)) \<le> live_bytes h + 1048576 \<and>
   live_bytes (snd (workqueue_proc_store (\<lambda>_. False) count h)) = live_bytes h + 1048576"
  using leak_loop_bound [of 0 h fails] leak_loop_bound [of 0 h "\<lambda>_. False"]
  by (simp add: workqueue_proc_store_def)

end
