(* ===== verification/Hook.thy ===== *)
theory Hook
  imports Sfs_Prelude
begin

text \<open>
  The module \<open>hook/hook.c\<close>, which redirects the kernel function \<open>ipv4_conntrack_in\<close> by patching its
  first five bytes with a jump.  The kernel text is a function from addresses to bytes, \<open>text_poke_smp\<close>
  stores bytes in it, and the addresses \<open>kallsyms_lookup_name\<close> finds (0 if there is no such symbol) and
  those of the module's own two functions are arguments.  What the processor does at a patched address is
  \<open>jump_target\<close>: the byte \<open>0xe9\<close> followed by a 32-bit offset relative to the next instruction.  A call is followed through
  patched addresses and the two functions of the module until it returns or goes on in kernel code.
\<close>

section \<open>State\<close>

abbreviation (input) OPTSIZE :: nat where "OPTSIZE \<equiv> 5"

type_synonym text_mem = "u64 \<Rightarrow> u8"

record hook_state =
  ktext :: text_mem
  saved_op :: bytes
  jump_op :: bytes
  ptr_orig_conntrack_in :: u64
  ptr_ipv4_conntrack_in :: u64
  ptr_poke_smp :: u64

definition text_poke_smp :: "u64 \<Rightarrow> bytes \<Rightarrow> text_mem \<Rightarrow> text_mem" where
  "text_poke_smp addr op m =
     (\<lambda>a. if unat (a - addr) < length op then op ! unat (a - addr) else m a)"

definition jump_target :: "text_mem \<Rightarrow> u64 \<Rightarrow> u64 option" where
  "jump_target m a =
     (if m a = 0xe9
      then Some (a + 5 + scast (ucast (of_le (map (\<lambda>i. m (a + of_nat i)) [1..<5])) :: u32))
      else None)"

section \<open>Operations\<close>

text \<open>\<open>op[0] = 0xe9; *(s32 *)(&op[1]) = (s32)diff;\<close>\<close>

definition jump_bytes :: "u64 \<Rightarrow> bytes" where
  "jump_bytes diff = 0xe9 # le_bytes 4 (ucast (ucast diff :: u32))"

definition hook_conn_init ::
    "u64 \<Rightarrow> u64 \<Rightarrow> u64 \<Rightarrow> u64 \<Rightarrow> hook_state \<Rightarrow> int \<times> hook_state" where
  "hook_conn_init sym_poke sym_conntrack hook_fn stub_fn s =
     (let s = s\<lparr>ptr_poke_smp := sym_poke\<rparr> in
      if ptr_poke_smp s = 0 then (- 1, s)
      else let s = s\<lparr>ptr_ipv4_conntrack_in := sym_conntrack\<rparr> in
      if ptr_ipv4_conntrack_in s = 0 then (- 1, s)
      else let s = s\<lparr>jump_op := jump_bytes (hook_fn - ptr_ipv4_conntrack_in s - of_nat OPTSIZE)\<rparr>;
               s = s\<lparr>saved_op := jump_bytes (ptr_ipv4_conntrack_in s + of_nat OPTSIZE - (stub_fn + of_nat OPTSIZE))\<rparr>;
               s = s\<lparr>ktext := text_poke_smp stub_fn (saved_op s) (ktext s)\<rparr>;
               s = s\<lparr>ptr_orig_conntrack_in := stub_fn\<rparr>;
               s = s\<lparr>ktext := text_poke_smp (ptr_ipv4_conntrack_in s) (jump_op s) (ktext s)\<rparr>
           in (0, s))"

definition hook_conn_exit :: "u64 \<Rightarrow> hook_state \<Rightarrow> hook_state" where
  "hook_conn_exit stub_fn s =
     (let s = s\<lparr>ktext := text_poke_smp (ptr_ipv4_conntrack_in s) (saved_op s) (ktext s)\<rparr>
      in s\<lparr>ktext := text_poke_smp stub_fn (jump_op s) (ktext s)\<rparr>)"

text \<open>The two functions of the module, with the lines they log.  The hook calls the original through its pointer; the
  stub's body runs only while it is not patched.\<close>

datatype flow = Returned int | Kernel_at u64

type_synonym call = "u64 \<Rightarrow> string list \<Rightarrow> (string list \<times> flow) option"

definition stub_ipv4_conntrack_in :: "string list \<Rightarrow> string list \<times> flow" where
  "stub_ipv4_conntrack_in log = (log @ [''hook stub conntrack''], Returned 0)"

definition hook_ipv4_conntrack_in :: "call \<Rightarrow> hook_state \<Rightarrow> string list \<Rightarrow> (string list \<times> flow) option" where
  "hook_ipv4_conntrack_in call s log = call (ptr_orig_conntrack_in s) (log @ [''hook conntrack''])"

text \<open>Control flow from an address, for a number of transfers.\<close>

primrec control :: "u64 \<Rightarrow> u64 \<Rightarrow> hook_state \<Rightarrow> nat \<Rightarrow> call" where
  "control hook_fn stub_fn s 0 = (\<lambda>a log. None)"
| "control hook_fn stub_fn s (Suc n) = (\<lambda>a log.
     case jump_target (ktext s) a of
       Some b \<Rightarrow> control hook_fn stub_fn s n b log
     | None \<Rightarrow>
         if a = hook_fn then hook_ipv4_conntrack_in (control hook_fn stub_fn s n) s log
         else if a = stub_fn then Some (stub_ipv4_conntrack_in log)
         else Some (log, Kernel_at a))"

section \<open>Jumps\<close>

text \<open>A distance that a 32-bit offset can express.\<close>

definition near :: "u64 \<Rightarrow> bool" where
  "near diff \<longleftrightarrow> scast (ucast diff :: u32) = diff"

lemma length_jump_bytes [simp]: "length (jump_bytes d) = 5"
  by (simp add: jump_bytes_def)

lemma of_le_4_u32: "(ucast (of_le (le_bytes 4 (ucast (w :: u32)))) :: u32) = w"
  by simp

lemma poke_byte: "i < length op \<Longrightarrow> i < 18446744073709551616 \<Longrightarrow> text_poke_smp a op m (a + of_nat i) = op ! i"
  by (simp add: text_poke_smp_def)

lemma poke_other: "length op \<le> unat (a' - a) \<Longrightarrow> text_poke_smp a op m a' = m a'"
  by (simp add: text_poke_smp_def)

lemma jump_target_poke:
  assumes "near diff"
  shows "jump_target (text_poke_smp a (jump_bytes diff) m) a = Some (a + 5 + diff)"
proof -
  let ?m = "text_poke_smp a (jump_bytes diff) m" and ?w = "ucast diff :: u32"
  have "?m (a + of_nat 0) = jump_bytes diff ! 0" by (rule poke_byte) simp_all
  then have first: "?m a = 0xe9" by (simp add: jump_bytes_def)
  have "map (\<lambda>i. ?m (a + of_nat i)) [1..<5] = map (\<lambda>i. jump_bytes diff ! i) [1..<5]"
    by (rule map_cong [OF refl], rule poke_byte) auto
  also have "\<dots> = le_bytes 4 (ucast ?w)"
    by (rule nth_equalityI) (simp_all add: jump_bytes_def nth_Cons' del: upt_rec_numeral)
  finally show ?thesis using first assms by (simp add: jump_target_def near_def of_le_4_u32 del: upt_rec_numeral)
qed

text \<open>No byte of the patch at \<open>a\<close> lies in the patch at \<open>b\<close>.\<close>

definition apart :: "u64 \<Rightarrow> u64 \<Rightarrow> bool" where
  "apart a b \<longleftrightarrow> list_all (\<lambda>i. 5 \<le> unat (a + of_nat i - b)) [0..<5]"

lemma apart_byte: "apart a b \<Longrightarrow> i < 5 \<Longrightarrow> 5 \<le> unat (a + of_nat i - b)"
  by (simp add: apart_def list_all_iff del: upt_rec_numeral)

lemma jump_target_poke_other:
  assumes "apart a b" "length op = 5"
  shows "jump_target (text_poke_smp b op m) a = jump_target m a"
proof -
  have same: "text_poke_smp b op m (a + of_nat i) = m (a + of_nat i)" if "i < 5" for i
    using apart_byte [OF assms(1) that] assms(2) by (intro poke_other) simp
  have "map (\<lambda>i. text_poke_smp b op m (a + of_nat i)) [1..<5] = map (\<lambda>i. m (a + of_nat i)) [1..<5]"
    using same by (intro map_cong) auto
  moreover have "text_poke_smp b op m a = m a" using same [of 0] by simp
  ultimately show ?thesis by (simp only: jump_target_def)
qed

section \<open>Properties\<close>

lemma hook_init_redirects:
  assumes "poke \<noteq> 0" "target \<noteq> 0" "apart stub target" "near (hook_fn - target - 5)" "near (target + 5 - (stub + 5))"
  shows "\<exists>s'. hook_conn_init poke target hook_fn stub s = (0, s') \<and>
    jump_target (ktext s') target = Some hook_fn \<and> jump_target (ktext s') stub = Some (target + 5) \<and>
    ptr_orig_conntrack_in s' = stub"
  using assms jump_target_poke [OF assms(4), of target] jump_target_poke [OF assms(5), of stub]
  by (simp add: hook_conn_init_def jump_target_poke_other Let_def algebra_simps)

lemma hook_init_elsewhere:
  assumes "hook_conn_init poke target hook_fn stub s = (0, s')" "apart a target" "apart a stub"
  shows "jump_target (ktext s') a = jump_target (ktext s) a"
  using assms by (auto simp: hook_conn_init_def jump_target_poke_other Let_def split: if_splits)

lemma apart_neq: "apart a b \<Longrightarrow> a \<noteq> b"
  using apart_byte [of a b 0] by auto

text \<open>C39: Loading the module redirects the function.  If both symbols are found, the patched places and the places the calls
  pass do not overlap and the distances fit 32 bits, \<open>hook_conn_init\<close> returns 0, and every later call of
  \<open>ipv4_conntrack_in\<close> logs the line of the hook once and goes on, through the pointer and the stub, at the sixth byte of
  \<open>ipv4_conntrack_in\<close>, after three transfers.  The original first five bytes are kept nowhere and are never executed, nor is the
  body of the stub.\<close>

theorem hooked_call:
  assumes "poke \<noteq> 0" "target \<noteq> 0" "apart stub target" "near (hook_fn - target - 5)" "near (target + 5 - (stub + 5))"
    and "apart hook_fn target" "apart hook_fn stub" "jump_target (ktext s) hook_fn = None"
    and "apart (target + 5) target" "apart (target + 5) stub" "jump_target (ktext s) (target + 5) = None"
    and "target + 5 \<noteq> hook_fn"
  shows "\<exists>s'. hook_conn_init poke target hook_fn stub s = (0, s') \<and>
    control hook_fn stub s' (4 + n) target log = Some (log @ [''hook conntrack''], Kernel_at (target + 5))"
proof -
  obtain s' where s': "hook_conn_init poke target hook_fn stub s = (0, s')" "jump_target (ktext s') target = Some hook_fn"
      "jump_target (ktext s') stub = Some (target + 5)" "ptr_orig_conntrack_in s' = stub"
    using hook_init_redirects [OF assms(1-5)] by blast
  have "jump_target (ktext s') hook_fn = None" "jump_target (ktext s') (target + 5) = None"
    using hook_init_elsewhere [OF s'(1)] assms by simp_all
  then have "control hook_fn stub s' (4 + n) target log = Some (log @ [''hook conntrack''], Kernel_at (target + 5))"
    using s' assms(12) apart_neq [OF assms(10)] by (simp add: hook_ipv4_conntrack_in_def numeral_eq_Suc)
  then show ?thesis using s'(1) by blast
qed

definition fresh_text :: hook_state where
  "fresh_text = \<lparr>ktext = (\<lambda>_. 0x90), saved_op = [], jump_op = [], ptr_orig_conntrack_in = 0,
     ptr_ipv4_conntrack_in = 0, ptr_poke_smp = 0\<rparr>"

lemma sample_distances: "apart 0x6000 0x1000" "apart 0x1000 0x6000" "near (0x5000 - 0x1000 - 5)" "near (0x1000 + 5 - (0x6000 + 5))"
    "apart 0x5000 0x1000" "apart 0x5000 0x6000" "apart (0x1000 + 5) 0x1000" "apart (0x1000 + 5) 0x6000"
  by (simp_all add: apart_def near_def upt_rec)

theorem hooked_call_witness:
  "\<exists>s'. hook_conn_init 1 0x1000 0x5000 0x6000 fresh_text = (0, s') \<and>
     control 0x5000 0x6000 s' 4 0x1000 [] = Some ([''hook conntrack''], Kernel_at 0x1005)"
  using hooked_call [OF _ _ sample_distances(1,3,4,5,6) _ sample_distances(7,8), of 1 fresh_text 0 "[]"]
  by (simp add: fresh_text_def jump_target_def)

text \<open>C40: unloading the module does not restore the function.  \<open>hook_conn_exit\<close> writes to \<open>ipv4_conntrack_in\<close> the
  jump that was computed for the stub: instead of its own instructions the function then begins with a jump
  to an address as far behind its sixth byte as the function lies behind the stub.\<close>

theorem hook_exit_misdirects:
  assumes "apart target stub" "near (target + 5 - (stub + 5))"
    and "hook_conn_init poke target hook_fn stub s = (0, s')"
  shows "jump_target (ktext (hook_conn_exit stub s')) target = Some (target + 5 + (target - stub))"
proof -
  have s': "ptr_ipv4_conntrack_in s' = target" "saved_op s' = jump_bytes (target + 5 - (stub + 5))" "length (jump_op s') = 5"
    using assms(3) by (auto simp: hook_conn_init_def Let_def split: if_splits)
  show ?thesis
    using jump_target_poke [OF assms(2), of target "ktext s'"] s'
    by (simp add: hook_conn_exit_def jump_target_poke_other [OF assms(1)] Let_def)
qed

theorem hook_exit_misdirects_witness:
  "jump_target (ktext (hook_conn_exit 0x6000 (snd (hook_conn_init 1 0x1000 0x5000 0x6000 fresh_text)))) 0x1000
     = Some (0x1005 + (0x1000 - 0x6000))"
proof -
  have "hook_conn_init 1 0x1000 0x5000 0x6000 fresh_text = (0, snd (hook_conn_init 1 0x1000 0x5000 0x6000 fresh_text))"
    by (simp add: hook_conn_init_def Let_def)
  from hook_exit_misdirects [OF sample_distances(2,4) this] show ?thesis by simp
qed

end
