(* ===== verification/Lock_Demo.thy ===== *)
theory Lock_Demo
  imports Sfs_Prelude
begin

text \<open>
  The user program \<open>app/lock.cpp\<close>: two threads that take two mutexes in opposite order and count, two that only
  sleep, and a main thread that starts and joins them.  A thread runs the statements of its function in a loop;
  one statement is one step, so the steps of the threads interleave at will.  \<open>sleep\<close> takes
  time but has no effect.  The counters are of type \<open>int\<close>, with 32 bits: an increment of the largest value is undefined in C, it
  sets \<open>overflowed\<close>, and nothing is said of what follows.  A mutex is not recursive, a thread that waits for one has no step.
\<close>

section \<open>Statements\<close>

datatype lk_mutex = mutex1 | mutex2 | mutex3 | mutex4

datatype counter = sequence1 | sequence2

abbreviation (input) INT_MAX :: int where "INT_MAX \<equiv> 2147483647"

text \<open>\<open>Fill_buffer\<close> stands for the declaration, \<open>memset\<close> and \<open>strcpy\<close> on the thread's own buffer.\<close>

datatype statement =
    Mutex_lock lk_mutex
  | Mutex_unlock lk_mutex
  | Increment counter
  | Sleep_second
  | Fill_buffer
  | Test_return counter

definition func1 :: "statement list" where
  "func1 = [Mutex_lock mutex1, Increment sequence1, Sleep_second, Mutex_lock mutex2, Increment sequence2,
     Mutex_unlock mutex2, Mutex_unlock mutex1]"

definition func2 :: "statement list" where
  "func2 = [Mutex_lock mutex2, Increment sequence2, Sleep_second, Mutex_lock mutex1, Increment sequence1,
     Mutex_unlock mutex1, Mutex_unlock mutex2]"

text \<open>The bodies of the thread loops; the counter that is returned is read after both mutexes are released.\<close>

definition thread1 :: "statement list" where
  "thread1 = func1 @ [Test_return sequence1]"

definition thread2 :: "statement list" where
  "thread2 = func2 @ [Test_return sequence2]"

definition thread3 :: "statement list" where
  "thread3 = [Sleep_second, Fill_buffer]"

definition thread4 :: "statement list" where
  "thread4 = [Sleep_second, Fill_buffer]"

definition body :: "nat \<Rightarrow> statement list" where
  "body t = (if t = 1 then thread1 else if t = 2 then thread2 else if t = 3 then thread3 else if t = 4 then thread4 else [])"

section \<open>States and steps\<close>

datatype tstate = Unborn | At nat | Exited

datatype mstate = Main nat | Terminated int

record lk_state =
  owner :: "lk_mutex \<Rightarrow> nat option"
  cnt :: "counter \<Rightarrow> int"
  th :: "nat \<Rightarrow> tstate"
  main_at :: mstate
  overflowed :: bool

definition advance :: "nat \<Rightarrow> nat \<Rightarrow> lk_state \<Rightarrow> lk_state" where
  "advance t k s = s\<lparr>th := (th s)(t := At (Suc k mod length (body t)))\<rparr>"

definition exec :: "nat \<Rightarrow> nat \<Rightarrow> statement \<Rightarrow> lk_state \<Rightarrow> lk_state option" where
  "exec t k st s =
     (case st of
        Mutex_lock m \<Rightarrow> if owner s m = None then Some (advance t k (s\<lparr>owner := (owner s)(m \<mapsto> t)\<rparr>)) else None
      | Mutex_unlock m \<Rightarrow> Some (advance t k (s\<lparr>owner := (owner s)(m := None)\<rparr>))
      | Increment c \<Rightarrow> if cnt s c = INT_MAX then Some (s\<lparr>overflowed := True\<rparr>)
          else Some (advance t k (s\<lparr>cnt := (cnt s)(c := cnt s c + 1)\<rparr>))
      | Sleep_second \<Rightarrow> Some (advance t k s)
      | Fill_buffer \<Rightarrow> Some (advance t k s)
      | Test_return c \<Rightarrow> if cnt s c = 100000 then Some (s\<lparr>th := (th s)(t := Exited)\<rparr>) else Some (advance t k s))"

definition thread_step :: "nat \<Rightarrow> lk_state \<Rightarrow> lk_state option" where
  "thread_step t s =
     (case th s t of
        At k \<Rightarrow> if k < length (body t) then exec t k (body t ! k) s else None
      | _ \<Rightarrow> None)"

text \<open>
  \<open>main\<close>: positions 0 to 3 are the calls of \<open>pthread_create\<close>, which may fail, 4 the sleep, 5 to 8 the joins, 9 to 12 the
  destruction of the mutexes, 13 the return.  When main terminates, so do the threads.
\<close>

inductive main_step :: "lk_state \<Rightarrow> lk_state \<Rightarrow> bool" where
  create: "\<lbrakk>main_at s = Main k; k < 4\<rbrakk> \<Longrightarrow> main_step s (s\<lparr>th := (th s)(Suc k := At 0), main_at := Main (Suc k)\<rparr>)"
| create_fails: "\<lbrakk>main_at s = Main k; k < 4\<rbrakk> \<Longrightarrow> main_step s (s\<lparr>main_at := Terminated 1\<rparr>)"
| nap: "main_at s = Main 4 \<Longrightarrow> main_step s (s\<lparr>main_at := Main 5\<rparr>)"
| join: "\<lbrakk>main_at s = Main k; 5 \<le> k; k < 9; th s (k - 4) = Exited\<rbrakk> \<Longrightarrow> main_step s (s\<lparr>main_at := Main (Suc k)\<rparr>)"
| destroy: "\<lbrakk>main_at s = Main k; 9 \<le> k; k < 13\<rbrakk> \<Longrightarrow> main_step s (s\<lparr>main_at := Main (Suc k)\<rparr>)"
| finish: "main_at s = Main 13 \<Longrightarrow> main_step s (s\<lparr>main_at := Terminated 0\<rparr>)"

inductive lk_step :: "lk_state \<Rightarrow> lk_state \<Rightarrow> bool" where
  main: "\<lbrakk>main_step s s'; \<not> overflowed s\<rbrakk> \<Longrightarrow> lk_step s s'"
| thread: "\<lbrakk>main_at s = Main k; thread_step t s = Some s'; \<not> overflowed s\<rbrakk> \<Longrightarrow> lk_step s s'"

definition lk_start :: lk_state where
  "lk_start = \<lparr>owner = (\<lambda>_. None), cnt = (\<lambda>_. 0), th = (\<lambda>_. Unborn), main_at = Main 0, overflowed = False\<rparr>"

definition lk_reachable :: "lk_state \<Rightarrow> bool" where
  "lk_reachable s \<longleftrightarrow> lk_step\<^sup>*\<^sup>* lk_start s"

inductive_cases main_stepE: "main_step s s'"
inductive_cases lk_stepE: "lk_step s s'"

text \<open>A schedule of threads, run while main stays where it is and no counter overflows.\<close>

fun run_threads :: "nat list \<Rightarrow> lk_state \<Rightarrow> lk_state option" where
  "run_threads [] s = Some s"
| "run_threads (t # ts) s = (if overflowed s then None else case thread_step t s of None \<Rightarrow> None | Some s \<Rightarrow> run_threads ts s)"

section \<open>The steps of each thread\<close>

lemmas body_defs = thread1_def thread2_def thread3_def thread4_def func1_def func2_def

lemma length_body: "length (body t) = (if t = 1 \<or> t = 2 then 8 else if t = 3 \<or> t = 4 then 2 else 0)"
  by (simp add: body_def body_defs)

lemma upto_8: "k < (8 :: nat) \<Longrightarrow> k = 0 \<or> k = 1 \<or> k = 2 \<or> k = 3 \<or> k = 4 \<or> k = 5 \<or> k = 6 \<or> k = 7"
  by linarith

lemma thread_step_cases:
  assumes "thread_step t s = Some s'"
  obtains k where "th s t = At k" "k < length (body t)" "exec t k (body t ! k) s = Some s'" "t \<in> {1, 2, 3, 4}"
proof -
  obtain k where k: "th s t = At k" "k < length (body t)" "exec t k (body t ! k) s = Some s'"
    using assms by (auto simp: thread_step_def split: tstate.splits if_splits)
  then show thesis by (intro that [of k]) (auto simp: length_body split: if_splits)
qed

lemma exec_frame:
  assumes "exec t k st s = Some s'"
  shows "main_at s' = main_at s" "u \<noteq> t \<Longrightarrow> th s' u = th s u" "cnt s c \<le> cnt s' c"
  using assms by (auto simp: exec_def advance_def split: statement.splits if_splits)

lemma thread_step_frame:
  assumes "thread_step t s = Some s'"
  shows "main_at s' = main_at s" "u \<noteq> t \<Longrightarrow> th s' u = th s u" "cnt s c \<le> cnt s' c"
  using thread_step_cases [OF assms] exec_frame by metis+

lemma run_threads_steps: "\<lbrakk>main_at s = Main k; run_threads ts s = Some s'\<rbrakk> \<Longrightarrow> lk_step\<^sup>*\<^sup>* s s' \<and> main_at s' = Main k"
proof (induction ts arbitrary: s)
  case Nil
  then show ?case by simp
next
  case (Cons t ts)
  then obtain s1 where s1: "thread_step t s = Some s1" "run_threads ts s1 = Some s'" "\<not> overflowed s"
    by (auto split: option.splits if_splits)
  have "main_at s1 = Main k" using thread_step_frame(1) [OF s1(1)] Cons.prems(1) by simp
  then show ?case
    using Cons.IH s1 lk_step.thread [OF Cons.prems(1) s1(1,3)] by (meson converse_rtranclp_into_rtranclp)
qed

lemma run_threads_append:
  "run_threads (ts @ us) s = (case run_threads ts s of None \<Rightarrow> None | Some s \<Rightarrow> run_threads us s)"
  by (induction ts arbitrary: s) (auto split: option.splits)

section \<open>Invariant\<close>

text \<open>The mutexes a thread holds at a position of its body, read off the statements before that position.\<close>

fun holds_after :: "statement list \<Rightarrow> lk_mutex set \<Rightarrow> lk_mutex set" where
  "holds_after [] H = H"
| "holds_after (Mutex_lock m # sts) H = holds_after sts (insert m H)"
| "holds_after (Mutex_unlock m # sts) H = holds_after sts (H - {m})"
| "holds_after (_ # sts) H = holds_after sts H"

definition holds :: "nat \<Rightarrow> tstate \<Rightarrow> lk_mutex set" where
  "holds t st = (case st of At k \<Rightarrow> holds_after (take k (body t)) {} | _ \<Rightarrow> {})"

text \<open>How far a thread is ahead with the counter it increments first.\<close>

definition ahead :: "tstate \<Rightarrow> int" where
  "ahead st = (if st \<in> {At 2, At 3, At 4} then 1 else 0)"

definition in_body :: "nat \<Rightarrow> tstate \<Rightarrow> bool" where
  "in_body t st = (case st of At k \<Rightarrow> k < length (body t) | Unborn \<Rightarrow> True | Exited \<Rightarrow> t = 1 \<or> t = 2)"

definition owners_ok :: "lk_state \<Rightarrow> bool" where
  "owners_ok s \<longleftrightarrow> (\<forall>m t. owner s m = Some t \<longleftrightarrow> m \<in> holds t (th s t))"

definition lk_inv :: "lk_state \<Rightarrow> bool" where
  "lk_inv s \<longleftrightarrow>
     (\<forall>t. in_body t (th s t)) \<and>
     owners_ok s \<and>
     cnt s sequence1 - cnt s sequence2 = ahead (th s 1) - ahead (th s 2) \<and>
     (\<forall>k t. main_at s = Main k \<longrightarrow> k < t \<longrightarrow> th s t = Unborn) \<and>
     (\<forall>k. main_at s = Main k \<longrightarrow> k \<le> 7) \<and>
     main_at s \<noteq> Terminated 0"

lemma held_simps:
  "holds t Unborn = {}" "holds t Exited = {}" "holds t (At 0) = {}"
  "holds 1 (At 1) = {mutex1}" "holds 1 (At 2) = {mutex1}" "holds 1 (At 3) = {mutex1}"
  "holds 1 (At 4) = {mutex1, mutex2}" "holds 1 (At 5) = {mutex1, mutex2}" "holds 1 (At 6) = {mutex1}" "holds 1 (At 7) = {}"
  "holds 2 (At 1) = {mutex2}" "holds 2 (At 2) = {mutex2}" "holds 2 (At 3) = {mutex2}"
  "holds 2 (At 4) = {mutex1, mutex2}" "holds 2 (At 5) = {mutex1, mutex2}" "holds 2 (At 6) = {mutex2}" "holds 2 (At 7) = {}"
  "holds 3 (At 1) = {}" "holds 4 (At 1) = {}"
  by (auto simp: holds_def body_def body_defs take_Cons')

lemma body_nth:
  "body 1 ! 0 = Mutex_lock mutex1" "body 1 ! 1 = Increment sequence1" "body 1 ! 2 = Sleep_second"
  "body 1 ! 3 = Mutex_lock mutex2" "body 1 ! 4 = Increment sequence2" "body 1 ! 5 = Mutex_unlock mutex2"
  "body 1 ! 6 = Mutex_unlock mutex1" "body 1 ! 7 = Test_return sequence1"
  "body 2 ! 0 = Mutex_lock mutex2" "body 2 ! 1 = Increment sequence2" "body 2 ! 2 = Sleep_second"
  "body 2 ! 3 = Mutex_lock mutex1" "body 2 ! 4 = Increment sequence1" "body 2 ! 5 = Mutex_unlock mutex1"
  "body 2 ! 6 = Mutex_unlock mutex2" "body 2 ! 7 = Test_return sequence2"
  "body 3 ! 0 = Sleep_second" "body 3 ! 1 = Fill_buffer" "body 4 ! 0 = Sleep_second" "body 4 ! 1 = Fill_buffer"
  by (simp_all add: body_def body_defs)

lemma lk_inv_start: "lk_inv lk_start"
  by (simp add: lk_inv_def lk_start_def owners_ok_def in_body_def held_simps ahead_def)

text \<open>What one statement does to the set of held mutexes and to the lead in counting.\<close>

lemma position_cases:
  assumes "k < length (body t)"
  shows "(t = 1 \<or> t = 2) \<and> (k = 0 \<or> k = 1 \<or> k = 2 \<or> k = 3 \<or> k = 4 \<or> k = 5 \<or> k = 6 \<or> k = 7) \<or>
    (t = 3 \<or> t = 4) \<and> (k = 0 \<or> k = 1)"
  using assms by (auto simp: length_body split: if_splits)

lemma held_next:
  assumes "k < length (body t)"
  shows "holds t (At (Suc k mod length (body t))) =
    (case body t ! k of Mutex_lock m \<Rightarrow> insert m (holds t (At k)) | Mutex_unlock m \<Rightarrow> holds t (At k) - {m} | _ \<Rightarrow> holds t (At k))"
  using position_cases [OF assms] by (elim disjE conjE; clarify; auto simp: length_body body_nth held_simps simp del: One_nat_def)

lemma unlock_holds: "\<lbrakk>k < length (body t); body t ! k = Mutex_unlock m\<rbrakk> \<Longrightarrow> m \<in> holds t (At k)"
  by (drule position_cases) (elim disjE conjE; clarify; simp add: body_nth held_simps del: One_nat_def)

lemma test_holds_none: "\<lbrakk>k < length (body t); body t ! k = Test_return c\<rbrakk> \<Longrightarrow> holds t (At k) = {} \<and> (t = 1 \<or> t = 2)"
  by (drule position_cases) (elim disjE conjE; clarify; simp add: body_nth held_simps del: One_nat_def)

lemma in_body_next: "k < length (body t) \<Longrightarrow> in_body t (At (Suc k mod length (body t)))"
  by (cases "length (body t)") (simp_all add: in_body_def)

text \<open>An increment that overflows only sets the flag.\<close>

fun overflows :: "statement \<Rightarrow> lk_state \<Rightarrow> bool" where
  "overflows (Increment c) s = (cnt s c = INT_MAX)"
| "overflows _ s = False"

lemma exec_overflow: "\<lbrakk>exec t k st s = Some s'; overflows st s\<rbrakk> \<Longrightarrow> s' = s\<lparr>overflowed := True\<rparr>"
  by (cases st) (auto simp: exec_def)

lemma thread_step_overflow:
  assumes "thread_step t s = Some s'" "overflows (body t ! k) s" "th s t = At k"
  shows "s' = s\<lparr>overflowed := True\<rparr>"
  using thread_step_cases [OF assms(1)] exec_overflow assms(2,3) by (metis tstate.inject)

text \<open>The three groups of clauses are kept by every statement.\<close>

lemma owners_ok_lock:
  "\<lbrakk>owners_ok s; owner s m = None; holds t st' = insert m (holds t (th s t))\<rbrakk>
   \<Longrightarrow> owners_ok (s\<lparr>owner := (owner s)(m \<mapsto> t), th := (th s)(t := st')\<rparr>)"
  unfolding owners_ok_def by (auto split: if_splits) force+

lemma owners_ok_unlock:
  "\<lbrakk>owners_ok s; m \<in> holds t (th s t); holds t st' = holds t (th s t) - {m}\<rbrakk>
   \<Longrightarrow> owners_ok (s\<lparr>owner := (owner s)(m := None), th := (th s)(t := st')\<rparr>)"
  unfolding owners_ok_def by (auto split: if_splits) (metis option.inject)+

lemma owners_ok_same:
  "\<lbrakk>owners_ok s; holds t st' = holds t (th s t)\<rbrakk> \<Longrightarrow> owners_ok (s\<lparr>th := (th s)(t := st')\<rparr>)"
  by (simp add: owners_ok_def)

lemma owners_ok_cnt [simp]: "owners_ok (s\<lparr>cnt := c, th := x\<rparr>) = owners_ok (s\<lparr>th := x\<rparr>)"
  by (simp add: owners_ok_def)

lemma owners_ok_step:
  assumes ok: "owners_ok s" and step: "thread_step t s = Some s'"
  shows "owners_ok s'"
proof -
  obtain k where k: "th s t = At k" "k < length (body t)" "exec t k (body t ! k) s = Some s'"
    using thread_step_cases [OF step] by blast
  note next_held = held_next [OF k(2)]
  show ?thesis
  proof (cases "body t ! k")
    case (Mutex_lock m)
    then have "owner s m = None" "s' = s\<lparr>owner := (owner s)(m \<mapsto> t), th := (th s)(t := At (Suc k mod length (body t)))\<rparr>"
      using k by (simp_all add: exec_def advance_def split: if_splits)
    with owners_ok_lock [OF ok] show ?thesis using next_held k(1) Mutex_lock by simp
  next
    case (Mutex_unlock m)
    then have "s' = s\<lparr>owner := (owner s)(m := None), th := (th s)(t := At (Suc k mod length (body t)))\<rparr>"
      using k by (simp add: exec_def advance_def)
    with owners_ok_unlock [OF ok] show ?thesis using next_held k(1) Mutex_unlock unlock_holds [OF k(2)] by simp
  next
    case (Test_return c)
    then have "holds t (th s' t) = holds t (th s t)" "s' = s\<lparr>th := (th s)(t := th s' t)\<rparr>"
      using k next_held test_holds_none [OF k(2) Test_return]
      by (auto simp: exec_def advance_def held_simps split: if_splits)
    with owners_ok_same [OF ok] show ?thesis by metis
  next
    case (Increment c)
    show ?thesis
    proof (cases "overflows (body t ! k) s")
      case True
      then show ?thesis using exec_overflow [OF k(3)] ok by (simp add: owners_ok_def)
    next
      case False
      then show ?thesis using k next_held owners_ok_same [OF ok] Increment by (auto simp: exec_def advance_def)
    qed
  qed (use k next_held owners_ok_same [OF ok] in \<open>auto simp: exec_def advance_def\<close>)
qed

text \<open>Counting: \<open>Increment\<close> of the own counter goes with a lead, of the other counter with its loss.\<close>

lemma exec_result:
  assumes "exec t k st s = Some s'" "\<not> overflows st s"
  shows "cnt s' c = cnt s c + (if st = Increment c then 1 else 0)"
    and "th s' t = (if (\<exists>c. st = Test_return c \<and> cnt s c = 100000) then Exited else At (Suc k mod length (body t)))"
  using assms by (auto simp: exec_def advance_def split: statement.splits if_splits)

definition lead :: "statement \<Rightarrow> int" where
  "lead st = (if st = Increment sequence1 then 1 else if st = Increment sequence2 then - 1 else 0)"

lemma ahead_next:
  assumes "k < length (body t)"
  shows "t = 1 \<Longrightarrow> ahead (At (Suc k mod length (body t))) - ahead (At k) = lead (body t ! k)"
    and "t = 2 \<Longrightarrow> ahead (At (Suc k mod length (body t))) - ahead (At k) = - lead (body t ! k)"
    and "t \<noteq> 1 \<Longrightarrow> t \<noteq> 2 \<Longrightarrow> lead (body t ! k) = 0"
    and "body t ! k = Test_return c \<Longrightarrow> ahead (At k) = 0 \<and> lead (body t ! k) = 0"
  using position_cases [OF assms]
  by (elim disjE conjE; simp add: length_body body_nth ahead_def lead_def del: One_nat_def)+

lemma counts_step:
  assumes diff: "cnt s sequence1 - cnt s sequence2 = ahead (th s 1) - ahead (th s 2)" and step: "thread_step t s = Some s'"
  shows "cnt s' sequence1 - cnt s' sequence2 = ahead (th s' 1) - ahead (th s' 2)"
proof -
  obtain k where k: "th s t = At k" "k < length (body t)" "exec t k (body t ! k) s = Some s'"
    using thread_step_cases [OF step] by blast
  show ?thesis
  proof (cases "overflows (body t ! k) s")
    case True
    then show ?thesis using exec_overflow [OF k(3)] diff by simp
  next
    case False
    note result = exec_result [OF k(3) False]
    have c: "cnt s' sequence1 - cnt s' sequence2 = cnt s sequence1 - cnt s sequence2 + lead (body t ! k)"
      using result(1) [of sequence1] result(1) [of sequence2] by (simp add: lead_def)
    have "ahead Exited = 0" by (simp add: ahead_def)
    then have a: "ahead (th s' t) = ahead (At (Suc k mod length (body t)))" if "t = 1 \<or> t = 2"
      using result(2) ahead_next [OF k(2)] that by (auto split: if_splits)
    show ?thesis
      using c diff a ahead_next(1-3) [OF k(2)] k(1) thread_step_frame(2) [OF step, of 1] thread_step_frame(2) [OF step, of 2]
      by (cases "t = 1"; cases "t = 2") simp_all
  qed
qed

lemma in_body_step:
  assumes "\<forall>u. in_body u (th s u)" "thread_step t s = Some s'"
  shows "in_body u (th s' u)"
proof (cases "u = t")
  case True
  obtain k where k: "th s t = At k" "k < length (body t)" "exec t k (body t ! k) s = Some s'"
    using thread_step_cases [OF assms(2)] by blast
  then show ?thesis
    using in_body_next [OF k(2)] test_holds_none [OF k(2)] True assms(1)
    by (cases "body t ! k") (auto simp: exec_def advance_def split: if_splits, auto simp: in_body_def)
qed (use thread_step_frame(2) [OF assms(2)] assms(1) in simp)

lemma main_step_inv:
  assumes inv: "lk_inv s" and step: "main_step s s'"
  shows "lk_inv s'"
  using step
proof cases
  case (create k)
  then have "th s (Suc k) = Unborn" using inv by (auto simp: lk_inv_def)
  moreover have "in_body (Suc k) (At 0)" using \<open>k < 4\<close> by (auto simp: in_body_def length_body)
  ultimately show ?thesis
    using inv create owners_ok_same [of s "Suc k" "At 0"]
    by (auto simp: lk_inv_def held_simps ahead_def owners_ok_def)
next
  case (join k)
  have "in_body (k - 4) (th s (k - 4))" using inv by (simp add: lk_inv_def)
  then have "k - 4 = 1 \<or> k - 4 = 2" using join by (simp add: in_body_def)
  then show ?thesis using inv join by (auto simp: lk_inv_def owners_ok_def)
qed (use inv in \<open>auto simp: lk_inv_def owners_ok_def\<close>)

lemma thread_step_inv:
  assumes inv: "lk_inv s" and step: "thread_step t s = Some s'"
  shows "lk_inv s'"
proof -
  have "th s t \<noteq> Unborn" using thread_step_cases [OF step] by force
  then have "\<forall>k u. main_at s' = Main k \<longrightarrow> k < u \<longrightarrow> th s' u = Unborn"
    using inv thread_step_frame(1) [OF step] thread_step_frame(2) [OF step] unfolding lk_inv_def by metis
  then show ?thesis
    using inv owners_ok_step [OF _ step] counts_step [OF _ step] in_body_step [OF _ step] thread_step_frame(1) [OF step]
    unfolding lk_inv_def by simp
qed

lemma lk_step_inv: "\<lbrakk>lk_inv s; lk_step s s'\<rbrakk> \<Longrightarrow> lk_inv s'"
  by (metis lk_step.cases main_step_inv thread_step_inv)

lemma reachable_inv: "lk_reachable s \<Longrightarrow> lk_inv s"
  unfolding lk_reachable_def by (induction rule: rtranclp_induct) (auto intro: lk_inv_start lk_step_inv)

lemma lk_steps_inv: "\<lbrakk>lk_step\<^sup>*\<^sup>* s s'; lk_inv s\<rbrakk> \<Longrightarrow> lk_inv s'"
  by (induction rule: rtranclp_induct) (auto intro: lk_step_inv)

section \<open>What the locks guarantee\<close>

text \<open>Each counter belongs to the mutex of its number.\<close>

fun guard_of :: "counter \<Rightarrow> lk_mutex" where
  "guard_of sequence1 = mutex1"
| "guard_of sequence2 = mutex2"

lemma increment_guarded: "\<lbrakk>k < length (body t); body t ! k = Increment c\<rbrakk> \<Longrightarrow> guard_of c \<in> holds t (At k)"
  by (drule position_cases) (elim disjE conjE; clarify; auto simp: body_nth held_simps simp del: One_nat_def)

text \<open>C12: In every state of every schedule a mutex is owned by exactly the thread whose position lies between its lock and
  unlock, so no two threads hold the same one; a thread that increments a counter holds the counter's mutex, so that
  increments never race; and the two counters differ by at most one, by exactly the leads of the two threads.\<close>

theorem locks_protect_counters:
  assumes "lk_reachable s"
  shows "(\<forall>m t. owner s m = Some t \<longleftrightarrow> m \<in> holds t (th s t)) \<and>
    (\<forall>m t u. m \<in> holds t (th s t) \<and> m \<in> holds u (th s u) \<longrightarrow> t = u) \<and>
    (\<forall>t k c. th s t = At k \<and> body t ! k = Increment c \<longrightarrow> owner s (guard_of c) = Some t) \<and>
    cnt s sequence1 - cnt s sequence2 = ahead (th s 1) - ahead (th s 2)"
proof -
  have inv: "owner s m = Some t \<longleftrightarrow> m \<in> holds t (th s t)" "in_body t (th s t)" for m t
    using reachable_inv [OF assms] by (auto simp: lk_inv_def owners_ok_def)
  have "t = u" if "m \<in> holds t (th s t)" "m \<in> holds u (th s u)" for m t u
    using that inv(1) by (metis option.inject)
  moreover have "owner s (guard_of c) = Some t" if "th s t = At k" "body t ! k = Increment c" for t k c
    using that inv(2) [of t] increment_guarded [of k t c] inv(1) [of "guard_of c" t] by (simp add: in_body_def)
  moreover have "cnt s sequence1 - cnt s sequence2 = ahead (th s 1) - ahead (th s 2)"
    using reachable_inv [OF assms] by (simp add: lk_inv_def)
  ultimately show ?thesis using inv(1) by blast
qed

section \<open>Deadlock\<close>

text \<open>All four threads started, main asleep.\<close>

definition lk_started :: lk_state where
  "lk_started = \<lparr>owner = (\<lambda>_. None), cnt = (\<lambda>_. 0), th = (\<lambda>t. if 1 \<le> t \<and> t \<le> 4 then At 0 else Unborn), main_at = Main 4, overflowed = False\<rparr>"

lemma started_reachable: "lk_reachable lk_started"
proof -
  let ?s = "\<lambda>n. lk_start\<lparr>th := (\<lambda>t. if 1 \<le> t \<and> t \<le> n then At 0 else Unborn), main_at := Main n\<rparr>"
  have "main_step (?s k) (?s (Suc k))" if "k < 4" for k
  proof -
    have "(\<lambda>t. if 1 \<le> t \<and> t \<le> Suc k then At 0 else Unborn) = (\<lambda>t. if 1 \<le> t \<and> t \<le> k then At 0 else Unborn)(Suc k := At 0)"
      by auto
    then show ?thesis using main_step.create [of "?s k" k] that by (simp add: lk_start_def)
  qed
  then have steps: "lk_step (?s k) (?s (Suc k))" if "k < 4" for k
    by (intro lk_step.main) (use that in \<open>simp_all add: lk_start_def\<close>)
  have "lk_step\<^sup>*\<^sup>* (?s 0) (?s k)" if "k \<le> 4" for k
    using that
  proof (induction k)
    case (Suc k)
    then show ?case using rtranclp.rtrancl_into_rtrancl [OF Suc.IH steps] by linarith
  qed simp
  moreover have "?s 0 = lk_start" by (auto simp: lk_start_def)
  moreover have "?s 4 = lk_started" by (simp add: lk_start_def lk_started_def)
  ultimately show ?thesis unfolding lk_reachable_def by (metis order_refl)
qed

lemma started_run:
  assumes "run_threads ts lk_started = Some s"
  shows "lk_reachable s" "main_at s = Main 4"
  using run_threads_steps [OF _ assms, of 4] started_reachable by (auto simp: lk_started_def lk_reachable_def)

text \<open>The threads 1 and 2 wait for each other: each is at its second lock.\<close>

definition deadlocked :: "lk_state \<Rightarrow> bool" where
  "deadlocked s \<longleftrightarrow> th s 1 = At 3 \<and> th s 2 = At 3"

lemma blocked_iff:
  assumes "th s t = At k" "k < length (body t)"
  shows "thread_step t s = None \<longleftrightarrow> (\<exists>m. body t ! k = Mutex_lock m \<and> owner s m \<noteq> None)"
  using assms by (auto simp: thread_step_def exec_def split: statement.splits if_splits)

lemma deadlocked_stuck:
  assumes "lk_inv s" "deadlocked s"
  shows "thread_step 1 s = None" "thread_step 2 s = None"
proof -
  have "owner s mutex2 = Some 2" "owner s mutex1 = Some 1"
    using assms by (simp_all add: lk_inv_def owners_ok_def deadlocked_def held_simps del: One_nat_def)
  then show "thread_step 1 s = None" "thread_step 2 s = None"
    using assms(2) by (simp_all add: thread_step_def exec_def deadlocked_def length_body body_nth del: One_nat_def)
qed

lemma deadlocked_forever:
  assumes "lk_inv s" "deadlocked s" "lk_step\<^sup>*\<^sup>* s s'"
  shows "deadlocked s'"
proof -
  have keep: "deadlocked s2" if "lk_inv s1" "deadlocked s1" "lk_step s1 s2" for s1 s2
    using that(3)
  proof cases
    case main
    then show ?thesis
    proof cases
      case (create k)
      then have "th s1 (Suc k) = Unborn" using that(1) by (auto simp: lk_inv_def)
      then have "Suc k \<noteq> 1 \<and> Suc k \<noteq> 2" using that(2) unfolding deadlocked_def by (metis tstate.distinct(1))
      then show ?thesis using create that(2) by (simp add: deadlocked_def)
    qed (use that(2) in \<open>auto simp: deadlocked_def\<close>)
  next
    case (thread k t)
    then have "t \<noteq> 1" "t \<noteq> 2" using deadlocked_stuck [OF that(1,2)] by auto
    then show ?thesis using thread_step_frame(2) [OF thread(2)] that(2) by (simp add: deadlocked_def)
  qed
  from assms(3,1,2) show ?thesis
    by (induction rule: rtranclp_induct) (use keep lk_steps_inv in blast)+
qed

lemma held_by_1_2: "m \<in> holds t st \<Longrightarrow> in_body t st \<Longrightarrow> t = 1 \<or> t = 2"
  by (cases st) (auto simp: held_simps in_body_def length_body numeral_2_eq_2 less_Suc_eq
      held_simps(18,19) [unfolded One_nat_def] split: if_splits)

text \<open>A blocked thread waits at one of its two locks, and the other thread is past the lock of that mutex.\<close>

lemma blocked_awaits:
  assumes inv: "lk_inv s" and at: "th s t = At k" and t: "t = 1 \<or> t = 2" and blocked: "thread_step t s = None"
  shows "k = 0 \<and> (if t = 1 then mutex1 else mutex2) \<in> holds (3 - t) (th s (3 - t)) \<or>
    k = 3 \<and> (if t = 1 then mutex2 else mutex1) \<in> holds (3 - t) (th s (3 - t))"
proof -
  have k: "k < length (body t)"
    using inv at by (metis lk_inv_def in_body_def tstate.simps(9))
  then obtain m u where m: "body t ! k = Mutex_lock m" "owner s m = Some u" using blocked_iff [OF at] blocked by auto
  then have "m \<in> holds u (th s u)" "in_body u (th s u)" using inv by (simp_all add: lk_inv_def owners_ok_def)
  moreover have "k = 0 \<and> m = (if t = 1 then mutex1 else mutex2) \<or> k = 3 \<and> m = (if t = 1 then mutex2 else mutex1)"
    using m(1) position_cases [OF k] t by (elim disjE conjE; simp add: body_nth del: One_nat_def)
  moreover have "m \<notin> holds t (th s t)"
    using at t calculation(3) by (auto simp: held_simps simp del: One_nat_def)
  ultimately show ?thesis using held_by_1_2 [of m u "th s u"] t by (cases "u = t") auto
qed

text \<open>C11: The lock order of the two functions deadlocks.  In a reachable state in which threads 1 and 2 are running, neither
  can move exactly if both are at their second lock; such a state is left by no step of any thread or of main, and no
  other pair of positions blocks them both.\<close>

theorem deadlock_exactly_at_second_lock:
  assumes "lk_reachable s" "th s 1 = At i" "th s 2 = At j"
  shows "(thread_step 1 s = None \<and> thread_step 2 s = None \<longleftrightarrow> i = 3 \<and> j = 3) \<and>
    (i = 3 \<and> j = 3 \<longrightarrow> (\<forall>s'. lk_step\<^sup>*\<^sup>* s s' \<longrightarrow> th s' 1 = At 3 \<and> th s' 2 = At 3))"
proof -
  note inv = reachable_inv [OF assms(1)]
  have "i = 3 \<and> j = 3" if "thread_step 1 s = None" "thread_step 2 s = None"
    using blocked_awaits [OF inv assms(2) _ that(1)] blocked_awaits [OF inv assms(3) _ that(2)] assms(2,3)
    by (auto simp: held_simps simp del: One_nat_def)
  then have "thread_step 1 s = None \<and> thread_step 2 s = None \<longleftrightarrow> i = 3 \<and> j = 3"
    using deadlocked_stuck [OF inv] assms(2,3) unfolding deadlocked_def by blast
  moreover have "th s' 1 = At 3 \<and> th s' 2 = At 3" if "i = 3" "j = 3" "lk_step\<^sup>*\<^sup>* s s'" for s'
    using deadlocked_forever [OF inv _ that(3)] assms that by (simp add: deadlocked_def)
  ultimately show ?thesis by blast
qed

text \<open>The schedule that deadlocks: each thread runs up to its second lock.\<close>

definition deadlock_state :: lk_state where
  "deadlock_state = \<lparr>owner = [mutex1 \<mapsto> 1, mutex2 \<mapsto> 2], cnt = (\<lambda>_. 1),
     th = (\<lambda>t. if 1 \<le> t \<and> t \<le> 4 then At 0 else Unborn)(1 := At 3, 2 := At 3), main_at = Main 4, overflowed = False\<rparr>"

lemmas thread_step_simps = thread_step_def exec_def advance_def length_body body_nth

lemma deadlock_run: "run_threads [1, 1, 1, 2, 2, 2] lk_started = Some deadlock_state"
  by (auto simp: lk_started_def deadlock_state_def thread_step_simps fun_eq_iff simp del: One_nat_def)
    (metis counter.exhaust)

theorem deadlock_exactly_at_second_lock_witness:
  "lk_reachable deadlock_state \<and> thread_step 1 deadlock_state = None \<and> thread_step 2 deadlock_state = None \<and>
   \<not> (\<exists>s'. lk_step\<^sup>*\<^sup>* deadlock_state s' \<and> th s' 1 \<noteq> At 3)"
proof -
  have r: "lk_reachable deadlock_state" using started_run [OF deadlock_run] by simp
  have at: "th deadlock_state 1 = At 3" "th deadlock_state 2 = At 3" by (simp_all add: deadlock_state_def)
  show ?thesis using deadlock_exactly_at_second_lock [OF r at] r by blast
qed

theorem locks_protect_counters_witness:
  "lk_reachable deadlock_state \<and> owner deadlock_state mutex1 = Some 1 \<and> cnt deadlock_state sequence1 = cnt deadlock_state sequence2"
proof -
  have r: "lk_reachable deadlock_state" using started_run [OF deadlock_run] by simp
  show ?thesis
    using r locks_protect_counters [OF r] by (auto simp: deadlock_state_def held_simps simp del: One_nat_def)
qed

section \<open>Termination of one thread, and of the program\<close>

text \<open>One undisturbed round of thread 1.\<close>

lemma one_round:
  assumes "th s 1 = At 0" "owner s mutex1 = None" "owner s mutex2 = None"
    and "\<not> overflowed s" "cnt s sequence1 < INT_MAX" "cnt s sequence2 < INT_MAX"
  shows "run_threads (replicate 8 1) s = Some (s\<lparr>cnt := (\<lambda>c. cnt s c + 1),
    th := (th s)(1 := if cnt s sequence1 = 99999 then Exited else At 0)\<rparr>)"
proof -
  have "(\<lambda>c. cnt s c + 1) = (cnt s)(sequence1 := cnt s sequence1 + 1, sequence2 := cnt s sequence2 + 1)"
    by (auto simp: fun_eq_iff split: counter.split) (metis counter.exhaust)
  moreover have "(owner s)(mutex2 := None, mutex1 := None) = owner s" using assms(2,3) by auto
  moreover have "replicate 8 (1 :: nat) = [1, 1, 1, 1, 1, 1, 1, 1]" by (simp add: numeral_eq_Suc)
  moreover have "s\<lparr>cnt := c, owner := owner s, th := b\<rparr> = s\<lparr>cnt := c, th := b\<rparr>" for b c by simp
  ultimately show ?thesis
    using assms by (simp add: thread_step_simps del: One_nat_def)
qed

lemma rounds:
  assumes "th s 1 = At 0" "owner s mutex1 = None" "owner s mutex2 = None" "cnt s sequence1 = 99999 - int n"
    and "\<not> overflowed s" "cnt s sequence2 + int (Suc n) \<le> INT_MAX"
  shows "run_threads (replicate (8 * Suc n) 1) s =
    Some (s\<lparr>cnt := (\<lambda>c. cnt s c + int (Suc n)), th := (th s)(1 := Exited)\<rparr>)"
  using assms
proof (induction n arbitrary: s)
  case 0
  then show ?case using one_round [of s] by (simp add: fun_upd_def)
next
  case (Suc n)
  let ?s = "s\<lparr>cnt := (\<lambda>c. cnt s c + 1), th := (th s)(1 := At 0)\<rparr>"
  have "replicate (8 * Suc (Suc n)) (1 :: nat) = replicate 8 1 @ replicate (8 * Suc n) 1"
    by (simp add: replicate_add [symmetric])
  moreover have "run_threads (replicate 8 1) s = Some ?s" using one_round [of s] Suc.prems by simp
  moreover have "run_threads (replicate (8 * Suc n) 1) ?s =
      Some (?s\<lparr>cnt := (\<lambda>c. cnt ?s c + int (Suc n)), th := (th ?s)(1 := Exited)\<rparr>)"
    using Suc.prems by (intro Suc.IH) simp_all
  moreover have "?s\<lparr>cnt := (\<lambda>c. cnt ?s c + int (Suc n)), th := (th ?s)(1 := Exited)\<rparr> =
      s\<lparr>cnt := (\<lambda>c. cnt s c + int (Suc (Suc n))), th := (th s)(1 := Exited)\<rparr>"
    by (simp add: add.assoc)
  ultimately show ?case by (simp only: run_threads_append option.case)
qed

text \<open>C13: A thread that is left alone finishes.  If thread 1 is at the start of its loop with both mutexes free, the
  counter below 100000 and the other counter not so large that it would overflow, it exits after exactly eight steps for every number that is missing, having raised both counters
  by that amount, and the mutexes are free again.\<close>

theorem thread1_alone_exits:
  assumes "th s 1 = At 0" "owner s mutex1 = None" "owner s mutex2 = None" "cnt s sequence1 < 100000"
    and "\<not> overflowed s" "cnt s sequence2 + (100000 - cnt s sequence1) \<le> INT_MAX"
  shows "run_threads (replicate (8 * nat (100000 - cnt s sequence1)) 1) s =
    Some (s\<lparr>cnt := (\<lambda>c. cnt s c + (100000 - cnt s sequence1)), th := (th s)(1 := Exited)\<rparr>)"
proof -
  let ?n = "nat (99999 - cnt s sequence1)"
  have n: "nat (100000 - cnt s sequence1) = Suc ?n" "int (Suc ?n) = 100000 - cnt s sequence1"
    using assms(4) by linarith+
  have "cnt s sequence1 = 99999 - int ?n" using assms(4) by simp
  from rounds [OF assms(1-3) this assms(5)] assms(6) show ?thesis unfolding n by blast
qed

theorem thread1_alone_exits_witness:
  "map_option (\<lambda>s. (th s 1, cnt s sequence1)) (run_threads (replicate 800000 1) lk_started) = Some (Exited, 100000)"
  using thread1_alone_exits [of lk_started] by (simp add: lk_started_def)

text \<open>Main never returns.  The threads 3 and 4 never exit, so in no reachable state has main got past joining the third
  thread, and the exit status 0 is never produced.\<close>

theorem main_never_returns:
  assumes "lk_reachable s"
  shows "main_at s \<noteq> Terminated 0" "th s 3 \<noteq> Exited" "th s 4 \<noteq> Exited" "main_at s = Main k \<Longrightarrow> k \<le> 7"
proof -
  have "in_body 3 (th s 3)" "in_body 4 (th s 4)" using reachable_inv [OF assms] by (simp_all add: lk_inv_def)
  then show "th s 3 \<noteq> Exited" "th s 4 \<noteq> Exited" by (auto simp: in_body_def)
  show "main_at s \<noteq> Terminated 0" "main_at s = Main k \<Longrightarrow> k \<le> 7"
    using reachable_inv [OF assms] by (simp_all add: lk_inv_def)
qed

theorem main_never_returns_witness: "lk_reachable lk_started \<and> main_at lk_started \<noteq> Terminated 0"
  using started_reachable main_never_returns(1) [OF started_reachable] by simp

section \<open>The missed exit\<close>

lemma test_of_thread1: "\<lbrakk>k < length (body 1); body 1 ! k = Test_return c\<rbrakk> \<Longrightarrow> c = sequence1"
  by (drule position_cases) (elim disjE conjE; simp add: body_nth del: One_nat_def)

lemma exited_count: "lk_reachable s \<Longrightarrow> th s 1 = Exited \<Longrightarrow> 100000 \<le> cnt s sequence1"
  unfolding lk_reachable_def
proof (induction rule: rtranclp_induct)
  case base
  then show ?case by (simp add: lk_start_def)
next
  case (step s s')
  from \<open>lk_step s s'\<close> show ?case
  proof cases
    case main
    then show ?thesis using step.IH step.prems by cases (auto split: if_splits)
  next
    case (thread k t)
    obtain i where i: "th s t = At i" "i < length (body t)" "exec t i (body t ! i) s = Some s'"
      using thread_step_cases [OF thread(2)] by blast
    show ?thesis
    proof (cases "t = 1")
      case True
      then have "\<not> overflows (body t ! i) s" using exec_overflow [OF i(3)] i(1) step.prems by auto
      note result = exec_result [OF i(3) this]
      obtain c where "body 1 ! i = Test_return c" "cnt s c = 100000"
        using result(2) step.prems True by (auto split: if_splits)
      moreover have "c = sequence1" using test_of_thread1 i(2) True calculation(1) by simp
      ultimately show ?thesis using result(1) [of sequence1] True by simp
    next
      case False
      then show ?thesis using step thread_step_frame [OF thread(2)] by (metis dual_order.trans)
    qed
  qed
qed

text \<open>Thread 2 has missed the number when its counter will be past it at the next test.\<close>

definition missed :: "lk_state \<Rightarrow> bool" where
  "missed s \<longleftrightarrow> (\<exists>k < 8. th s 2 = At k \<and> 100000 + (if 2 \<le> k then 1 else 0) \<le> cnt s sequence2)"

lemma missed_thread_step:
  assumes "missed s" "thread_step t s = Some s'"
  shows "missed s'"
proof (cases "t = 2")
  case False
  then show ?thesis
    using assms thread_step_frame [OF assms(2)] unfolding missed_def by (metis dual_order.trans)
next
  case True
  obtain k where k: "th s 2 = At k" "k < length (body 2)" "exec 2 k (body 2 ! k) s = Some s'"
    using thread_step_cases [OF assms(2)] True by blast
  then have c: "100000 + (if 2 \<le> k then 1 else 0) \<le> cnt s sequence2" using assms(1) by (auto simp: missed_def)
  show ?thesis
  proof (cases "overflows (body 2 ! k) s")
    case True
    then show ?thesis using exec_overflow [OF k(3)] assms(1) by (simp add: missed_def)
  next
    case False
    show ?thesis
      using position_cases [OF k(2)] c exec_result [OF k(3) False]
      by (elim disjE conjE; simp add: missed_def length_body body_nth del: One_nat_def)
  qed
qed

lemma missed_forever:
  assumes "lk_step\<^sup>*\<^sup>* s s'" "missed s" "lk_inv s"
  shows "missed s'"
  using assms
proof (induction rule: rtranclp_induct)
  case (step s1 s2)
  then have m: "missed s1" and inv: "lk_inv s1" using lk_steps_inv by blast+
  from \<open>lk_step s1 s2\<close> show ?case
  proof cases
    case main
    then show ?thesis
    proof cases
      case (create k)
      then have "th s1 (Suc k) = Unborn" using inv by (auto simp: lk_inv_def)
      then have "Suc k \<noteq> 2" using m unfolding missed_def by (metis tstate.distinct(1))
      then show ?thesis using create m by (simp add: missed_def)
    qed (use m in \<open>auto simp: missed_def\<close>)
  next
    case (thread k t)
    then show ?thesis using missed_thread_step m by blast
  qed
qed

text \<open>Counters are within their type, and the flag is only set by an increment of the largest value.\<close>

lemma counters_in_range: "lk_reachable s \<Longrightarrow> 0 \<le> cnt s c \<and> cnt s c \<le> INT_MAX"
  unfolding lk_reachable_def
proof (induction rule: rtranclp_induct)
  case base
  then show ?case by (simp add: lk_start_def)
next
  case (step s s')
  from \<open>lk_step s s'\<close> show ?case
  proof cases
    case main
    then show ?thesis using step.IH by cases auto
  next
    case (thread k t)
    then obtain i where "exec t i (body t ! i) s = Some s'" using thread_step_cases by metis
    then show ?thesis using step.IH by (auto simp: exec_def advance_def split: statement.splits if_splits)
  qed
qed

lemma overflow_at_max: "lk_step\<^sup>*\<^sup>* s s' \<Longrightarrow> \<not> overflowed s \<Longrightarrow> overflowed s' \<Longrightarrow> \<exists>c. cnt s' c = INT_MAX"
proof (induction rule: rtranclp_induct)
  case (step s1 s2)
  from \<open>lk_step s1 s2\<close> show ?case
  proof cases
    case main
    then show ?thesis using step.prems by cases auto
  next
    case (thread k t)
    then obtain i where "exec t i (body t ! i) s1 = Some s2" using thread_step_cases by metis
    then show ?thesis using step.prems thread(3) by (auto simp: exec_def advance_def split: statement.splits if_splits)
  qed
qed simp

text \<open>C38: The two exits exclude each other in general.  The counters go up together, and each thread waits for the exact
  number: once thread 1 has exited and thread 2 is at the start of a round, thread 2 does not exit in any continuation,
  up to the overflow of a counter, which comes only when one has reached the largest \<open>int\<close> and whose effect C leaves
  undefined.\<close>

theorem second_thread_never_exits:
  assumes "lk_reachable s" "th s 1 = Exited" "th s 2 = At k" "k < 2" "\<not> overflowed s" "lk_step\<^sup>*\<^sup>* s s'"
  shows "th s' 2 \<noteq> Exited \<and> cnt s' sequence2 \<le> INT_MAX \<and> (overflowed s' \<longrightarrow> (\<exists>c. cnt s' c = INT_MAX))"
proof -
  note inv = reachable_inv [OF assms(1)]
  have "ahead (th s 1) = 0" "ahead (th s 2) = 0" using assms(2-4) by (auto simp: ahead_def)
  then have "cnt s sequence1 = cnt s sequence2" using inv by (simp add: lk_inv_def)
  then have "missed s" using exited_count [OF assms(1,2)] assms(3,4) by (auto simp: missed_def)
  then have "th s' 2 \<noteq> Exited" using missed_forever [OF assms(6) _ inv] by (auto simp: missed_def)
  moreover have "lk_reachable s'" using assms(1,6) unfolding lk_reachable_def by (rule rtranclp_trans)
  ultimately show ?thesis using counters_in_range overflow_at_max [OF assms(6,5)] by blast
qed

lemma alone_run: "run_threads (replicate (8 * Suc 99999) 1) lk_started =
    Some (lk_started\<lparr>cnt := (\<lambda>c. 100000), th := (th lk_started)(1 := Exited)\<rparr>)"
  using rounds [of lk_started 99999] by (simp add: lk_started_def)

theorem second_thread_never_exits_witness:
  "\<not> (\<exists>s. lk_step\<^sup>*\<^sup>* (lk_started\<lparr>cnt := (\<lambda>c. 100000), th := (th lk_started)(1 := Exited)\<rparr>) s \<and> th s 2 = Exited)"
  using second_thread_never_exits [OF started_run(1) [OF alone_run], of 0] by (auto simp: lk_started_def)

end
