(* ===== verification/Spec2Isabelle.thy ===== *)
theory Spec2Isabelle
  imports Sfs_Abstract Sfs_Disturbed Sfs_Mount Mkfs Global_Fifo Mm_Debug Mm_Spinlock Hook Lock_Demo
begin

text \<open>
  A verification of the kernel modules and the programs of the repository: the file system \<open>simplefs\<close>
  (\<open>simplefs/simple.c\<close>, \<open>simple.h\<close>, \<open>super.h\<close>, \<open>mkfs-simplefs.c\<close>), the queue device \<open>globalfifo/globalfifo.c\<close>, the
  small modules \<open>mm/mm_debug.c\<close>, \<open>mm_spinlock/mm_spinlock.c\<close> and \<open>hook/hook.c\<close>, and the thread program \<open>app/lock.cpp\<close>.

  \<^bold>\<open>The program.\<close>  A simplefs device has a super block (block 0), an inode store (block 1: an array of 128
  structures, the inode with number \<open>n\<close> in slot \<open>n - 1\<close>), and data blocks from 2 on.  A directory is a data block with 15
  records of a name and an inode number, and is mirrored in memory by a directory cache: two lists of entries,
  \<open>used\<close> and \<open>free\<close>.  The module keeps the super block and a bitmap of inode numbers in memory, protects
  them with three mutexes, and writes blocks through the kernel's buffer cache.  \<open>mkfs-simplefs\<close> writes
  the first blocks of a device.  \<open>globalfifo\<close> is a ten-byte queue with tasks that sleep while it is empty or full.
  \<open>app/lock.cpp\<close> runs four threads, two of which take two mutexes in opposite order.

  \<^bold>\<open>Conventions.\<close>  An operation is a function from its arguments and the state to an \<open>outcome\<close>: \<open>Done\<close> with the
  result and the new state, or a \<open>Fault\<close> (a NULL dereference, an access outside an object, a
  failed \<open>BUG_ON\<close>, an undefined shift, an unlock of a mutex that is not held, a deadlock of a task with itself).
  Error codes are negative results, as in C.  Machine integers are words of their width; the
  \<open>int\<close> arithmetic of the block bitmap is kept at 32 bits with its sign extension.  A block is a function
  from offsets to bytes, and structures are read and written in it at their C offsets.  What the code cannot
  decide (signals, failing allocations and reads, incomplete user copies, the contents of fresh slab
  objects, the clock) is the environment \<open>kenv\<close>; every query of it has its own number, so the
  statements hold for any pattern of failures unless they assume \<open>calm\<close>, no failure.

  \<^bold>\<open>The theories and the code.\<close>
  \<^item> \<open>Sfs_Prelude\<close>: outcomes, blocks, little-endian integers, C strings, \<open>1 << i\<close> on \<open>int\<close>, \<open>ffz\<close>, \<open>set_bit\<close>.
  \<^item> \<open>Sfs_Layout\<close>: \<open>simple.h\<close>.  The locales \<open>slot_array\<close>, \<open>slot_clear\<close>, \<open>slot_store\<close> describe an array of structures in a
    block; the inode store and the directory block interpret them.
  \<^item> \<open>Sfs_Kernel\<close>: mutexes, the buffer cache and the device behind it, allocation, user copies.
  \<^item> \<open>Sfs_Dir_Cache\<close>: \<open>simplefs_cache_alloc\<close> to \<open>cache_entry_insert\<close> and the directory steps of creation and deletion.  The locale
    \<open>name_table\<close> is the interface the handlers use, a bounded map from names to inode numbers; cache and block
    together interpret it.
  \<^item> \<open>Sfs_Inode_Store\<close>: \<open>simplefs_sb_sync\<close> to \<open>simplefs_sb_get_objects_count\<close>, \<open>simplefs_get_inode\<close>, \<open>simplefs_inode_save\<close>.  The
    state \<open>sbstate\<close> holds \<open>sb_info->sb\<close> (\<open>sb_mem\<close>) and \<open>sb_info->imap\<close>.  In the code \<open>sb\<close> points into the buffer of block 0; the
    model keeps it apart and copies it to the buffer where \<open>simplefs_sb_sync\<close> does, the only
    place where the buffer is written out.  The invariant \<open>fs_inv\<close> ties inode store, bitmap, object count and free-block
    map together; \<open>inode_of\<close> is the abstract inode table, and the locale \<open>inode_table\<close> its interface.
  \<^item> \<open>Sfs_Vfs\<close>: in-core inodes and directory entries in tables indexed by their addresses, \<open>new_inode\<close>, \<open>d_add\<close>, \<open>dput\<close>.
  \<^item> \<open>Sfs_File_IO\<close>: \<open>simplefs_read\<close>, \<open>simplefs_write\<close>, \<open>simplefs_iterate\<close>.
  \<^item> \<open>Sfs_Namespace\<close>: \<open>simplefs_create_fs_object\<close>, \<open>simplefs_mkdir\<close>, \<open>simplefs_create\<close>, \<open>simplefs_unlink\<close>,
    \<open>simplefs_lookup\<close>, \<open>simplefs_destory_inode\<close>, \<open>simplefs_dentry_release\<close>.
  \<^item> \<open>Sfs_Abstract\<close>: what the module promises to its users, a file system of names, files and contents with its own steps \<open>afs_step\<close>; the
    locale \<open>simulation\<close> carries a step-wise relation over sequences of calls, and the handlers of one directory interpret it.
  \<^item> \<open>Sfs_Disturbed\<close>: the handlers when things fail: a small calculus of partial correctness for the readers in any environment, an
    environment with one signal, and the use of a deleted file.
  \<^item> \<open>Sfs_Mount\<close>: \<open>fill_imap\<close>, \<open>simplefs_fill_super\<close>, mount, unmount, \<open>simplefs_init\<close>, \<open>simplefs_exit\<close>.
  \<^item> \<open>Mkfs\<close>: \<open>mkfs-simplefs.c\<close> on a device of bytes.
  \<^item> \<open>Global_Fifo\<close>: \<open>globalfifo.c\<close>; the handlers are split at \<open>schedule()\<close> and after \<open>up\<close> and are the steps of a system of tasks.  What
    follows the label \<open>out2\<close>, the removal from the wait queue, has steps of its own: one for a writer, two for a reader, whose entry
    is unlinked under the lock of the other queue; an operation on \<open>r_wait\<close> between the two sets \<open>raced\<close>, after which the model
    lets \<open>r_wait\<close> hold anything.  \<open>globalfifo_poll\<close> puts the entries of the poller on both queues.  The locale
    \<open>byte_queue\<close> is the contract of the device between \<open>down\<close> and \<open>up\<close>.
  \<^item> \<open>Mm_Debug\<close>, \<open>Mm_Spinlock\<close>, \<open>Hook\<close>: the modules of these names; \<open>Hook\<close> follows a call through the patched kernel text.
    The operations of \<open>Mm_Debug\<close> take the memory behind the 16-byte buffer as an argument.
  \<^item> \<open>Lock_Demo\<close>: \<open>app/lock.cpp\<close>, with one step for each statement of a thread and every interleaving of the steps.  The overflow of
    one of the 32-bit counters is undefined in C and ends the execution.

  \<^bold>\<open>What is shown.\<close>  The directory operations implement insertion into and deletion from a map; the inode store operations
  keep \<open>fs_inv\<close> and act on \<open>inode_of\<close> as on a table; \<open>simplefs_create_fs_object\<close>, \<open>simplefs_unlink\<close>, \<open>simplefs_write\<close> and
  \<open>simplefs_lookup\<close> are characterised completely in a calm environment, with what they leave unchanged and what is
  on the device when they return, and any sequence of their calls in one directory implements the abstract file system; mounting
  establishes the invariant, and after unmounting recovers the state; a formatted, mounted and listed device refines
  the abstract file system with its one file (the theorem of this theory).  The search and allocation loops are
  equivalent to their one-line specifications.  Readers change nothing in any environment.  The errors: which
  guards refuse what, and where the code fails: allocation that never reports a full device, a directory with 15
  entries, a directory never listed, signals between two locks or inside a creation, positions ignored by reads, entries
  lost by listings, a deletion that is not durable and leaks its block, a write to a deleted file that destroys another.
  The queue device is first-in first-out over all histories of its tasks, and no handler leaves its ten bytes under any interleaving;
  the wait queues hold exactly the tasks in a handler and the pollers, \<open>r_wait\<close> only until an operation races with the
  removal of a reader, which is shown to be possible; \<open>poll\<close> reports exactly which calls would block; a write wakes all
  sleeping readers and the next one to run gets its bytes.  The threads of \<open>lock.cpp\<close> count without races; the exact
  state in which they deadlock, the termination of a thread left alone, and that main does not
  return, all up to an overflow of a counter.

  \<^bold>\<open>Totality.\<close>  All loops of the code are bounded; their models are total functions with termination proofs on the
  loop counters (128 slots of the inode store, 15 records, the shift counter up to 64, 128 rounds of the leak
  loop), so there is no fuel, and results are proved as equations with \<open>Done\<close> or \<open>Fault\<close>.  The control flow of \<open>Hook\<close> takes a number of
  transfers as fuel, of which four suffice for a hooked call.  The loops of \<open>lock.cpp\<close> need not end; their steps are a relation.

  \<^bold>\<open>What is not modelled.\<close>  Log output; the scheduler beyond the sleeping and waking of \<open>globalfifo\<close>; what the kernel does with a
  corrupted wait queue beyond finding other entries on it; two tasks inside
  simplefs at the same time (its handlers are sequential, the mutexes are tracked for the running task);
  the operation tables except which one an inode is given; the variants for old kernel versions; the kernel's
  \<open>mount_bdev\<close>, \<open>kill_block_super\<close>, \<open>dir_emit\<close> and \<open>kstrtoint\<close>, which are parameters; \<open>__destroy_inode\<close>, which releases nothing
  the model has; generated files, build files and the shell test.
\<close>

section \<open>From formatting to reading\<close>

lemma root_sync:
  assumes "device_ok sb (cache s 1)" "cache s' = cache s" "icache s' = (icache s)(v \<mapsto> vi)" "i_ino vi = 1"
    and "i_private vi = Some (rd_inode 0 (cache s 1))"
  shows "in_sync s' v (rd_inode 0 (cache s 1))"
proof -
  have "slot_used (cache s 1) 0" "numbered (cache s 1)" using assms(1) by (simp_all add: device_ok_def root_inv_def)
  then have "unat (inode_no (rd_inode 0 (cache s 1))) = 1" by (auto simp: numbered_def used_slots_def)
  then have "inode_no (rd_inode 0 (cache s 1)) = 1" by (metis unat_1 word_unat_eq_iff)
  moreover have "inode_of s' 1 = Some (rd_inode 0 (cache s 1))"
    using \<open>slot_used (cache s 1) 0\<close> assms(2) by (simp add: inode_of_def)
  ultimately show ?thesis using assms(3-5) by (simp add: in_sync_def)
qed

text \<open>The root directory of a formatted device: one record, for the welcome file.\<close>

lemma mkfs_root_block:
  assumes "b = dev_block (mkfs_image e (\<lambda>_. 0)) 2"
  shows "i < 15 \<Longrightarrow> is_used b i \<longleftrightarrow> i = 0" "names_unique b" "dir_listing b = [(welcome_name @ replicate 247 0, 2)]"
    "cache_ok dc b \<Longrightarrow> name_ok y \<Longrightarrow> dir_lookup (dc, b) y = (if y = welcome_name then Some 2 else None)"
    "cache_ok dc b \<Longrightarrow> length (free dc) = 14"
proof -
  have "dev_block (\<lambda>_. 0) 2 = (\<lambda>_. 0)" by (simp add: dev_block_def)
  then have rd: "rd_record i b = (if i = 0 then \<lparr>filename = welcome_name @ replicate 247 0 @ [padding e 0], rec_inode_no = 2\<rparr>
      else rd_record i (\<lambda>_. 0))" if "i < 15" for i
    using mkfs_image_records [OF that, of e "\<lambda>_. 0"] assms by simp
  then show used: "i < 15 \<Longrightarrow> is_used b i \<longleftrightarrow> i = 0" for i
    using is_used_zero [of i, unfolded is_used_def] by (simp add: is_used_def)
  then show uniq: "names_unique b" by (auto simp: names_unique_def)
  have "filter (is_used b) [0..<15] = filter (\<lambda>i. i = 0) [0..<15]"
    using used by (intro filter_cong) auto
  also have "\<dots> = [0]" by code_simp
  finally show "dir_listing b = [(welcome_name @ replicate 247 0, 2)]"
    using length_welcome_name by (simp add: dir_listing_def rd del: upt_rec_numeral)
  have "matches b 0 y \<longleftrightarrow> y = welcome_name" if "name_ok y" for y
    using mkfs_image_matches_iff [of y e "\<lambda>_. 0"] that assms by (simp add: name_ok_def)
  then have "(\<exists>i<15. no = rec_inode_no (rd_record i b) \<and> is_used b i \<and> matches b i y) \<longleftrightarrow> no = 2 \<and> y = welcome_name"
    if "name_ok y" for y no
    using that used rd [of 0] by (auto intro: exI [of _ 0])
  then show "dir_lookup (dc, b) y = (if y = welcome_name then Some 2 else None)" if "cache_ok dc b" "name_ok y"
    using that uniq by (intro dir_lookup_eqI) (auto simp: dir_inv_def name_ok_def)
  show "length (free dc) = 14" if "cache_ok dc b"
  proof -
    have "entry_no ` set (free dc) = {1..<15}" using that used by (auto simp: cache_ok_def)
    then show ?thesis using that by (metis cache_ok_def card_atLeastLessThan diff_Suc_1 distinct_card length_map numeral_eq_Suc
          pred_numeral_simps(3) set_map One_nat_def)
  qed
qed

text \<open>Listing a formatted root directory opens it.\<close>

lemma list_formatted_root:
  assumes "calm e" "idle_inv s" "in_sync s v mkfs_root" "cache s 2 = dev_block (mkfs_image em (\<lambda>_. 0)) 2"
    and "dcache s r = Some pd" "d_inode pd = Some v" "d_fsdata pd = None"
  shows "\<exists>dc s'. simplefs_iterate e (fill_dir 15) r 0 [] s = Done ((0, 264, [(welcome_name @ replicate 247 0, 2)]), s') \<and>
    open_dir s' r v mkfs_root dc \<and> cache_ok dc (cache s' 2) \<and> idle_inv s' \<and>
    dcache s' = (dcache s)(r \<mapsto> pd\<lparr>d_fsdata := Some (Inr dc)\<rparr>) \<and> icache s' = icache s \<and>
    cache s' = cache s \<and> sb_mem s' = sb_mem s \<and> next_inode s' = next_inode s \<and> inode_of s' = inode_of s"
proof -
  note root = mkfs_root_block [OF assms(4)]
  have n: "data_block_number mkfs_root = 2" by (simp add: mkfs_root_def)
  obtain dc where dc: "cache_ok dc (cache s 2)" and it: "simplefs_iterate e (fill_dir 15) r 0 [] s =
      (let s' = s\<lparr>tick := tick s + 17, dcache := (dcache s)(r \<mapsto> pd\<lparr>d_fsdata := Some (Inr dc)\<rparr>)\<rparr> in
       let (pos', ctx') = emit_all (fill_dir 15) (used dc) 0 [] in Done ((0, pos', ctx'), s'))"
    using iterate_builds [OF assms(1,5), of mkfs_root "fill_dir 15" 0 "[]"] assms(6,7) in_sync_private [OF assms(3)] n
    by auto
  let ?s = "s\<lparr>tick := tick s + 17, dcache := (dcache s)(r \<mapsto> pd\<lparr>d_fsdata := Some (Inr dc)\<rparr>)\<rparr>"
  have eq: "inode_of ?s = inode_of s" by (rule inode_of_cong) simp
  have "in_sync ?s v mkfs_root" using assms(3) unfolding in_sync_def eq by simp
  then have "open_dir ?s r v mkfs_root dc" using assms(6) dc root(2) n by (simp add: open_dir_def dir_inv_def)
  moreover have "idle_inv ?s" using assms(2) by (simp add: idle_inv_def fs_inv_def unlocked_def)
  moreover have "emit_all (fill_dir 15) (used dc) 0 [] = (264, [(welcome_name @ replicate 247 0, 2)])"
    using emit_all_listing [OF dc, of 15 0] root(3) by simp
  ultimately show ?thesis
    using it dc eq by (intro exI [of _ dc] exI [of _ ?s]) (simp add: Let_def)
qed

text \<open>The abstract file system of a formatted device; \<open>ds\<close> are the directory entries in play.\<close>

definition fresh_afs :: "(nat \<Rightarrow> bytes option) \<Rightarrow> afs" where
  "fresh_afs ds = \<lparr>afiles = [welcome_name \<mapsto> AFile welcomefile_body], aroom = 14, aspace = 28,
     adents = (\<lambda>d. map_option (\<lambda>y. (y, False)) (ds d))\<rparr>"

lemma fresh_free_count: "free_count (free_blocks mkfs_super) = 28"
proof -
  have "{k. 3 \<le> k \<and> k < 32 \<and> k \<noteq> 3} = {4..<32 :: nat}" by auto
  then show ?thesis unfolding free_count_def mkfs_super_free one_file_free by simp
qed

lemma formatted_rel:
  assumes "idle_inv s" "\<forall>v \<ge> next_inode s. icache s v = None" "sb_mem s = mkfs_super" "open_dir s r v mkfs_root dc"
    and blk: "\<And>n. cache s n = dev_block (mkfs_image em (\<lambda>_. 0)) (unat n)" and ok: "cache_ok dc (cache s 2)"
    and ds: "\<And>d y. ds d = Some y \<Longrightarrow> dentry_rel s r (dir_lookup (dc, cache s 2)) d y False"
    and inj: "\<And>d d' y. ds d = Some y \<Longrightarrow> ds d' = Some y \<Longrightarrow> d = d'"
  shows "fs_rel r v s (fresh_afs ds)"
proof -
  have n: "data_block_number mkfs_root = 2" "inode_no mkfs_root = 1" by (simp_all add: mkfs_root_def)
  have w: "inode_no welcome_inode = 2" "isize welcome_inode = 41" "data_block_number welcome_inode = 3" "mode welcome_inode = 0x8000"
    by (simp_all add: welcome_inode_def length_welcomefile_body)
  have c2: "cache s 2 = dev_block (mkfs_image em (\<lambda>_. 0)) 2" using blk [of 2] by simp
  note root = mkfs_root_block [OF c2]
  have "rd_inode 1 (cache s 1) = welcome_inode" using mkfs_image_inodes [of 1 em "\<lambda>_. 0"] blk [of 1] by simp
  then have i2: "inode_of s 2 = Some welcome_inode" using w(1) by (simp add: inode_of_def slot_used_def)
  have "name_ok welcome_name" by (simp add: name_ok_def welcome_name_def bytes_of_def)
  then have lf: "links_ok s 1 (dir_lookup (dc, cache s 2))" "files s (dir_lookup (dc, cache s 2)) = [welcome_name \<mapsto> node_of s welcome_inode]"
    by (rule single_file [where nd = welcome_inode and pno = 1, rotated]; simp add: root(4) [OF ok] i2 w)+
  have "blk_read 0 41 (cache s 3) = welcomefile_body" using blk [of 3] by (simp add: dev_block_read mkfs_image_read)
  then have "node_of s welcome_inode = AFile welcomefile_body" by (simp add: node_of_def w S_ISREG_def)
  then have "fs_view r v s (fresh_afs ds) mkfs_root dc (dir_lookup (dc, cache s 2))"
    using assms(1-4) lf ds inj root(5) [OF ok] n fresh_free_count by (auto simp: fs_view_def fresh_afs_def)
  then show ?thesis by (auto simp: fs_rel_def)
qed

text \<open>C3: a formatted device behaves like a map with one file.  After \<open>mkfs-simplefs\<close> has formatted a zeroed device without
  error, mounting it succeeds and listing the root directory gives exactly the entry \<open>vanakkam\<close> with inode 2.
  From then on every sequence of lookups, creations, writes, reads and deletions in the root directory that is within the contract
  of the abstract file system, which starts with the one file and its 41 bytes of text, 14 free records and 28
  free blocks, runs without a fault and returns the results of the abstract file system.\<close>

theorem formatted_device_refines:
  fixes m :: mntstate
  assumes "calm e" "keeps_type e" "writes_all em" "pos fd = 0" "dev fd = (\<lambda>_. 0)"
    and "unlocked m" "cache m = (\<lambda>n. dev_block (dev (snd (mkfs_main em 2 fd))) (unat n))"
    and "\<And>v. next_inode m \<le> v \<Longrightarrow> icache m v = None"
    and "\<And>d y. ds d = Some y \<Longrightarrow> d \<noteq> r \<and> name_ok y \<and> (\<exists>de. dcache m d = Some de \<and> d_parent de = r \<and> d_name de = y)"
    and "\<And>d d' y. ds d = Some y \<Longrightarrow> ds d' = Some y \<Longrightarrow> d = d'"
    and "spec_run afs_step cs (fresh_afs ds) = Some (rs, a')"
  shows "fst (mkfs_main em 2 fd) = 0 \<and> (\<exists>t1 t2 t3. simplefs_fill_super e r m = Done (0, t1) \<and>
    simplefs_iterate e (fill_dir 15) r 0 [] t1 = Done ((0, 264, [(welcome_name @ replicate 247 0, 2)]), t2) \<and>
    impl_run (fs_call (next_inode m) e) cs t2 = Done (rs, t3) \<and> fs_rel r (next_inode m) t3 a')"
proof -
  obtain fd' where mk: "mkfs_main em 2 fd = (0, fd')" "dev fd' = mkfs_image em (\<lambda>_. 0)"
    using mkfs_main_image [OF assms(3,4)] assms(5) by auto
  let ?v = "next_inode m"
  have c: "cache m n = dev_block (mkfs_image em (\<lambda>_. 0)) (unat n)" for n using assms(7) mk by simp
  have sb: "rd_super (cache m 0) = mkfs_super" and dev: "device_ok mkfs_super (cache m 1)"
    and rd: "rd_inode 0 (cache m 1) = mkfs_root"
    using mkfs_device_ok mkfs_image_inodes [of 0 em "\<lambda>_. 0"] by (simp_all add: c mkfs_image_super)
  obtain im t1 vi where t1: "simplefs_fill_super e r m = Done (0, t1)" "imap_inv (cache m 1) im" "imap t1 = im"
    "sb_mem t1 = mkfs_super" "cache t1 = cache m" "held t1 = held m" "next_inode t1 = Suc ?v"
    "dcache t1 = (dcache m)(r \<mapsto> \<lparr>d_inode = Some ?v, d_parent = r, d_name = [47], d_fsdata = None, d_count = 1\<rparr>)"
    "icache t1 = (icache m)(?v \<mapsto> vi)" "i_ino vi = 1" "i_private vi = Some mkfs_root"
    using fill_super_calm [OF assms(1,6) sb dev, of r] rd by auto
  have inv1: "idle_inv t1"
    using device_ok_store_inv [OF dev t1(2)] assms(6) t1 by (simp add: idle_inv_def fs_inv_def unlocked_def)
  have sync1: "in_sync t1 ?v mkfs_root" using root_sync [OF dev t1(5,9,10)] t1(11) rd by simp
  obtain dc t2 where t2: "simplefs_iterate e (fill_dir 15) r 0 [] t1 = Done ((0, 264, [(welcome_name @ replicate 247 0, 2)]), t2)"
    "open_dir t2 r ?v mkfs_root dc" "cache_ok dc (cache t2 2)" "idle_inv t2"
    and eq2: "\<And>x. x \<noteq> r \<Longrightarrow> dcache t2 x = dcache t1 x" "icache t2 = icache t1" "cache t2 = cache t1" "sb_mem t2 = sb_mem t1"
      "next_inode t2 = next_inode t1"
    using list_formatted_root [OF assms(1) inv1 sync1, of em] t1(5,8) c [of 2] by force
  have "fs_rel r ?v t2 (fresh_afs ds)"
    by (rule formatted_rel [OF t2(4) _ _ t2(2) _ t2(3)])
      (use assms(8-10) eq2 t1 c in \<open>force simp: dentry_rel_def\<close>)+
  from sfs.run [OF conjI [OF assms(1,2)] this assms(11)] show ?thesis using mk t1(1) t2(1) by fastforce
qed

definition formatted_machine :: mntstate where
  "formatted_machine = unmounted_one_file
     \<lparr>cache := (\<lambda>n. dev_block (dev (snd (mkfs_main good_mkenv 2 blank_fd))) (unat n)),
      dcache := [1 \<mapsto> \<lparr>d_inode = None, d_parent = 0, d_name = welcome_name, d_fsdata = None, d_count = 1\<rparr>]\<rparr>"

theorem formatted_device_refines_witness:
  "\<exists>t1 t2 t3. simplefs_fill_super quiet_env 0 formatted_machine = Done (0, t1) \<and>
    simplefs_iterate quiet_env (fill_dir 15) 0 0 [] t1 = Done ((0, 264, [(welcome_name @ replicate 247 0, 2)]), t2) \<and>
    impl_run (fs_call 0 quiet_env) [Lookup 1, Read 1 4096, Write 1 4 [33], Read 1 4096] t2 =
      Done ([(0, []), (41, welcomefile_body), (1, []), (5, take 4 welcomefile_body @ [33])], t3)"
proof -
  let ?a = "fresh_afs [1 \<mapsto> welcome_name]"
  have m: "pos blank_fd = 0" "dev blank_fd = (\<lambda>_. 0)" "unlocked formatted_machine" "next_inode formatted_machine = 0"
    "cache formatted_machine = (\<lambda>n. dev_block (dev (snd (mkfs_main good_mkenv 2 blank_fd))) (unat n))"
    "dcache formatted_machine 1 = Some \<lparr>d_inode = None, d_parent = 0, d_name = welcome_name, d_fsdata = None, d_count = 1\<rparr>"
    "icache formatted_machine v = None" for v
    by (simp_all add: blank_fd_def formatted_machine_def unmounted_one_file_def unlocked_def)
  have "name_ok welcome_name" by (simp add: name_ok_def welcome_name_def bytes_of_def)
  have "\<exists>a'. spec_run afs_step [Lookup 1, Read 1 4096, Write 1 4 [33], Read 1 4096] ?a =
      Some ([(0, []), (41, welcomefile_body), (1, []), (5, take 4 welcomefile_body @ [33])], a')"
    using length_welcomefile_body by (simp add: fresh_afs_def)
  then obtain a' where "spec_run afs_step [Lookup 1, Read 1 4096, Write 1 4 [33], Read 1 4096] ?a =
      Some ([(0, []), (41, welcomefile_body), (1, []), (5, take 4 welcomefile_body @ [33])], a')" by blast
  note run = formatted_device_refines [OF calm_quiet_env good_mkenv m(1-3,5) _ _ _ this, where r = 0]
  have "\<exists>t1 t2 t3. simplefs_fill_super quiet_env 0 formatted_machine = Done (0, t1) \<and>
    simplefs_iterate quiet_env (fill_dir 15) 0 0 [] t1 = Done ((0, 264, [(welcome_name @ replicate 247 0, 2)]), t2) \<and>
    impl_run (fs_call (next_inode formatted_machine) quiet_env) [Lookup 1, Read 1 4096, Write 1 4 [33], Read 1 4096] t2 =
      Done ([(0, []), (41, welcomefile_body), (1, []), (5, take 4 welcomefile_body @ [33])], t3) \<and>
    fs_rel 0 (next_inode formatted_machine) t3 a'"
    by (rule run [THEN conjunct2]) (simp_all add: m \<open>name_ok welcome_name\<close> split: if_splits del: One_nat_def)
  then show ?thesis unfolding m(4) by blast
qed

end
